theory Spec2Isabelle
  imports Complex_Main "HOL-Library.Multiset"
begin

section \<open>Python values, exceptions and dictionaries\<close>

text \<open>
  The program \<^verbatim>\<open>process_roster.py\<close> handles CSV cells, which are Python strings, and
  the value \<^verbatim>\<open>None\<close> that \<^verbatim>\<open>csv.DictReader\<close> stores for the missing cells of a short
  record. A value is therefore a \<open>string option\<close>: \<open>None\<close> is Python's \<^verbatim>\<open>None\<close>,
  \<open>Some s\<close> the string \<open>s\<close>. A dictionary with string keys is a map; a key that is not in
  the dictionary is outside the map's domain. Every exception the program can raise is a
  value of \<open>py_error\<close>.
\<close>

datatype py_error =
    KeyError string
  | TypeError
  | ValueError
  | OverflowError
  | ZeroDivisionError
  | FileNotFoundError string

type_synonym pyval = "string option"

type_synonym row = "string \<rightharpoonup> pyval"

definition bindE :: "'e + 'a \<Rightarrow> ('a \<Rightarrow> 'e + 'b) \<Rightarrow> 'e + 'b" where
  "bindE m f = (case m of Inl e \<Rightarrow> Inl e | Inr a \<Rightarrow> f a)"

text \<open>\<^verbatim>\<open>d[k]\<close>: the value, or \<^verbatim>\<open>KeyError\<close>.\<close>

definition getitem :: "row \<Rightarrow> string \<Rightarrow> py_error + pyval" where
  "getitem d k = (case d k of None \<Rightarrow> Inl (KeyError k) | Some v \<Rightarrow> Inr v)"

text \<open>\<^verbatim>\<open>d.get(k, default)\<close>: a key that is present wins, even when its value is \<^verbatim>\<open>None\<close>
  or the empty string.\<close>

definition dict_get :: "row \<Rightarrow> string \<Rightarrow> pyval \<Rightarrow> pyval" where
  "dict_get d k dflt = (case d k of None \<Rightarrow> dflt | Some v \<Rightarrow> v)"

text \<open>Truth value of a string or \<^verbatim>\<open>None\<close>, as tested by \<^verbatim>\<open>if english_name:\<close>.\<close>

definition truthy :: "pyval \<Rightarrow> bool" where
  "truthy v = (case v of None \<Rightarrow> False | Some s \<Rightarrow> s \<noteq> [])"

text \<open>How an f-string shows a value.\<close>

definition py_format :: "pyval \<Rightarrow> string" where
  "py_format v = (case v of None \<Rightarrow> ''None'' | Some s \<Rightarrow> s)"

section \<open>Integers: \<^verbatim>\<open>int(str)\<close>, \<^verbatim>\<open>str(int)\<close>, true division and \<^verbatim>\<open>math.floor\<close>\<close>

text \<open>
  A string of the model is the UTF-8 encoding of the Python string it stands for, one
  character per byte; the program reads and writes its files in that encoding. Equality,
  emptiness and concatenation of strings are those of the encoded text. Only \<^verbatim>\<open>int\<close> looks
  at the characters of a string, so only there is the text decoded: \<open>code_points\<close> gives
  the Unicode code points. A string that is not well-formed UTF-8 encodes no text (no
  decoded file holds it); its characters are then taken as the code points themselves.
\<close>

definition is_cont :: "nat \<Rightarrow> bool" where
  "is_cont b = (0x80 \<le> b \<and> b < 0xC0)"

fun utf8_decode :: "nat list \<Rightarrow> nat list option" where
  "utf8_decode [] = Some []"
| "utf8_decode (b # bs) =
     (if b < 0x80 then map_option ((#) b) (utf8_decode bs)
      else if 0xC2 \<le> b \<and> b < 0xE0 then
        (case bs of
           b1 # rest \<Rightarrow>
             if is_cont b1
             then map_option ((#) ((b - 0xC0) * 64 + (b1 - 0x80))) (utf8_decode rest)
             else None
         | _ \<Rightarrow> None)
      else if 0xE0 \<le> b \<and> b < 0xF0 then
        (case bs of
           b1 # b2 # rest \<Rightarrow>
             let c = (b - 0xE0) * 4096 + (b1 - 0x80) * 64 + (b2 - 0x80)
             in if is_cont b1 \<and> is_cont b2 \<and> 0x800 \<le> c \<and> \<not> (0xD800 \<le> c \<and> c < 0xE000)
                then map_option ((#) c) (utf8_decode rest)
                else None
         | _ \<Rightarrow> None)
      else if 0xF0 \<le> b \<and> b < 0xF5 then
        (case bs of
           b1 # b2 # b3 # rest \<Rightarrow>
             let c = (b - 0xF0) * 262144 + (b1 - 0x80) * 4096 + (b2 - 0x80) * 64 + (b3 - 0x80)
             in if is_cont b1 \<and> is_cont b2 \<and> is_cont b3 \<and> 0x10000 \<le> c \<and> c < 0x110000
                then map_option ((#) c) (utf8_decode rest)
                else None
         | _ \<Rightarrow> None)
      else None)"

definition code_points :: "string \<Rightarrow> nat list" where
  "code_points s =
     (case utf8_decode (map of_char s) of
        Some cs \<Rightarrow> cs
      | None \<Rightarrow> map of_char s)"

text \<open>
  \<^verbatim>\<open>int(s)\<close> in base ten: whitespace at both ends is dropped, one sign is allowed, and the
  digits may be separated by single underscores. Whitespace is the six ASCII characters
  that C's \<^verbatim>\<open>isspace\<close> knows and the Unicode spaces outside ASCII; a digit is any Unicode
  decimal digit, and these come in blocks of ten beginning with a zero (the table is that
  of Unicode 14, which Python 3.11 has). More than 4300 digits are refused (the
  interpreter's default limit for integer string conversion).
\<close>

definition is_space :: "nat \<Rightarrow> bool" where
  "is_space c =
     (c \<in> set [0x20, 0x09, 0x0A, 0x0B, 0x0C, 0x0D, 0x85, 0xA0, 0x1680,
                0x2000, 0x2001, 0x2002, 0x2003, 0x2004, 0x2005, 0x2006, 0x2007, 0x2008,
                0x2009, 0x200A, 0x2028, 0x2029, 0x202F, 0x205F, 0x3000])"

definition digit_zeros :: "nat list" where
  "digit_zeros =
     [0x660, 0x6F0, 0x7C0, 0x966, 0x9E6, 0xA66, 0xAE6, 0xB66, 0xBE6, 0xC66, 0xCE6,
      0xD66, 0xDE6, 0xE50, 0xED0, 0xF20, 0x1040, 0x1090, 0x17E0, 0x1810, 0x1946, 0x19D0,
      0x1A80, 0x1A90, 0x1B50, 0x1BB0, 0x1C40, 0x1C50, 0xA620, 0xA8D0, 0xA900, 0xA9D0,
      0xA9F0, 0xAA50, 0xABF0, 0xFF10, 0x104A0, 0x10D30, 0x11066, 0x110F0, 0x11136,
      0x111D0, 0x112F0, 0x11450, 0x114D0, 0x11650, 0x116C0, 0x11730, 0x118E0, 0x11950,
      0x11C50, 0x11D50, 0x11DA0, 0x16A60, 0x16AC0, 0x16B50, 0x1D7CE, 0x1D7D8, 0x1D7E2,
      0x1D7EC, 0x1D7F6, 0x1E140, 0x1E2F0, 0x1E950, 0x1FBF0]"

text \<open>The zero of the block of ten that the code point \<open>c\<close> lies in, if it is a digit.\<close>

definition digit_zero :: "nat \<Rightarrow> nat option" where
  "digit_zero c =
     (if c < 0x80 then (if 0x30 \<le> c \<and> c < 0x3A then Some 0x30 else None)
      else List.find (\<lambda>z. z \<le> c \<and> c < z + 10) digit_zeros)"

definition is_digit :: "nat \<Rightarrow> bool" where
  "is_digit c = (digit_zero c \<noteq> None)"

definition digit_value :: "nat \<Rightarrow> nat" where
  "digit_value c = (case digit_zero c of Some z \<Rightarrow> c - z | None \<Rightarrow> 0)"

definition strip :: "nat list \<Rightarrow> nat list" where
  "strip s = rev (dropWhile is_space (rev (dropWhile is_space s)))"

text \<open>\<open>scan_digits acc n cs\<close> reads the rest of a digit string after a digit: \<open>acc\<close> is the
  value read so far and \<open>n\<close> the number of digits read. An underscore (code point 5F) must
  stand between two digits.\<close>

fun scan_digits :: "nat \<Rightarrow> nat \<Rightarrow> nat list \<Rightarrow> (nat \<times> nat) option" where
  "scan_digits acc n [] = Some (acc, n)"
| "scan_digits acc n [c] =
     (if is_digit c then Some (10 * acc + digit_value c, Suc n) else None)"
| "scan_digits acc n (c # d # cs) =
     (if is_digit c then scan_digits (10 * acc + digit_value c) (Suc n) (d # cs)
      else if c = 0x5F \<and> is_digit d then scan_digits (10 * acc + digit_value d) (Suc n) cs
      else None)"

definition max_str_digits :: nat where
  "max_str_digits = 4300"

definition parse_unsigned :: "nat list \<Rightarrow> nat option" where
  "parse_unsigned s =
     (case s of
        [] \<Rightarrow> None
      | c # cs \<Rightarrow>
          if is_digit c then
            (case scan_digits (digit_value c) 1 cs of
               None \<Rightarrow> None
             | Some (v, n) \<Rightarrow> if max_str_digits < n then None else Some v)
          else None)"

text \<open>The sign is \<open>-\<close> (code point 2D) or \<open>+\<close> (2B) and stands directly before the first
  digit; \<^verbatim>\<open>None\<close> is the \<^verbatim>\<open>ValueError\<close> of \<^verbatim>\<open>int\<close>.\<close>

definition py_int :: "string \<Rightarrow> int option" where
  "py_int s =
     (case strip (code_points s) of
        [] \<Rightarrow> None
      | c # cs \<Rightarrow>
          if c = 0x2D then map_option (\<lambda>v. - int v) (parse_unsigned cs)
          else if c = 0x2B then map_option int (parse_unsigned cs)
          else map_option int (parse_unsigned (c # cs)))"

text \<open>\<^verbatim>\<open>int(v)\<close> for a cell value: \<^verbatim>\<open>None\<close> is a \<^verbatim>\<open>TypeError\<close>, a string that is not
  an integer literal a \<^verbatim>\<open>ValueError\<close>.\<close>

definition int_of_val :: "pyval \<Rightarrow> py_error + int" where
  "int_of_val v =
     (case v of
        None \<Rightarrow> Inl TypeError
      | Some s \<Rightarrow> (case py_int s of None \<Rightarrow> Inl ValueError | Some i \<Rightarrow> Inr i))"

text \<open>\<^verbatim>\<open>str(i)\<close>: the decimal numeral of an integer.\<close>

definition digit_char :: "nat \<Rightarrow> char" where
  "digit_char n = ''0123456789'' ! n"

fun str_nat :: "nat \<Rightarrow> string" where
  "str_nat n =
     (if n < 10 then [digit_char n]
      else str_nat (n div 10) @ [digit_char (n mod 10)])"

declare str_nat.simps [simp del]

definition py_str :: "int \<Rightarrow> string" where
  "py_str i = (if i < 0 then CHR ''-'' # str_nat (nat (- i)) else str_nat (nat i))"

text \<open>
  \<^verbatim>\<open>a / b\<close> on two integers is true division: the result is the IEEE 754 double nearest
  to the exact quotient (ties to even), and \<^verbatim>\<open>OverflowError\<close> when that is not finite. A
  finite double is a rational number, so the result is modelled as the rational it denotes.
  \<open>bit_length n\<close> is the number of binary digits of \<open>n\<close>; \<open>ilog2 x\<close> is the exponent \<open>e\<close>
  with \<open>2 powi e \<le> x < 2 powi (e + 1)\<close> for a positive rational \<open>x\<close>.
\<close>

fun bit_length :: "nat \<Rightarrow> nat" where
  "bit_length n = (if n = 0 then 0 else Suc (bit_length (n div 2)))"

declare bit_length.simps [simp del]

definition ilog2 :: "rat \<Rightarrow> int" where
  "ilog2 x =
     (let (n, d) = quotient_of x;
          e0 = int (bit_length (nat n)) - int (bit_length (nat d))
      in if 2 powi e0 \<le> x then e0 else e0 - 1)"

definition round_half_even :: "rat \<Rightarrow> int" where
  "round_half_even x =
     (let f = \<lfloor>x\<rfloor>; d = x - of_int f
      in if d < 1 / 2 then f
         else if 1 / 2 < d then f + 1
         else if even f then f else f + 1)"

text \<open>Doubles have 53 significant bits, a least normal exponent of \<open>-1022\<close>, and are
  finite below \<open>2 ^ 1024\<close>.\<close>

definition round_to_double :: "rat \<Rightarrow> rat option" where
  "round_to_double x =
     (if x = 0 then Some 0
      else
        let e = max (ilog2 \<bar>x\<bar>) (- 1022);
            ulp = 2 powi (e - 52);
            r = sgn x * of_int (round_half_even (\<bar>x\<bar> / ulp)) * ulp
        in if 2 ^ 1024 \<le> \<bar>r\<bar> then None else Some r)"

definition int_truediv :: "int \<Rightarrow> int \<Rightarrow> py_error + rat" where
  "int_truediv a b =
     (if b = 0 then Inl ZeroDivisionError
      else case round_to_double (of_int a / of_int b) of
             None \<Rightarrow> Inl OverflowError
           | Some x \<Rightarrow> Inr x)"

text \<open>\<^verbatim>\<open>math.floor(a / b)\<close>.\<close>

definition math_floor_truediv :: "int \<Rightarrow> int \<Rightarrow> py_error + int" where
  "math_floor_truediv a b = bindE (int_truediv a b) (\<lambda>x. Inr \<lfloor>x\<rfloor>)"

section \<open>The team table\<close>

definition TEAM_MAPPING :: "(string \<times> string) list" where
  "TEAM_MAPPING =
     [(''Atlanta Hawks'', ''Hawks''),
      (''Boston Celtics'', ''Celtics''),
      (''Brooklyn Nets'', ''Nets''),
      (''Charlotte Hornets'', ''Hornets''),
      (''Chicago Bulls'', ''Bulls''),
      (''Cleveland Cavaliers'', ''Cavaliers''),
      (''Dallas Mavericks'', ''Mavericks''),
      (''Denver Nuggets'', ''Nuggets''),
      (''Detroit Pistons'', ''Pistons''),
      (''Golden State Warriors'', ''Warriors''),
      (''Houston Rockets'', ''Rockets''),
      (''Indiana Pacers'', ''Pacers''),
      (''Los Angeles Clippers'', ''Clippers''),
      (''Los Angeles Lakers'', ''Lakers''),
      (''Memphis Grizzlies'', ''Grizzlies''),
      (''Miami Heat'', ''Heat''),
      (''Milwaukee Bucks'', ''Bucks''),
      (''Minnesota Timberwolves'', ''Timberwolves''),
      (''New Orleans Pelicans'', ''Pelicans''),
      (''New York Knicks'', ''Knicks''),
      (''Oklahoma City Thunder'', ''Thunder''),
      (''Orlando Magic'', ''Magic''),
      (''Philadelphia 76ers'', ''76ers''),
      (''Phoenix Suns'', ''Suns''),
      (''Portland Trail Blazers'', ''Trail Blazers''),
      (''Sacramento Kings'', ''Kings''),
      (''San Antonio Spurs'', ''Spurs''),
      (''Toronto Raptors'', ''Raptors''),
      (''Utah Jazz'', ''Jazz''),
      (''Washington Wizards'', ''Wizards'')]"

text \<open>\<^verbatim>\<open>TEAM_MAPPING[team]\<close> when \<^verbatim>\<open>team in TEAM_MAPPING\<close>; \<^verbatim>\<open>None\<close> is never a key.\<close>

definition team_code :: "pyval \<Rightarrow> string option" where
  "team_code team = (case team of None \<Rightarrow> None | Some s \<Rightarrow> map_of TEAM_MAPPING s)"

section \<open>\<^verbatim>\<open>process_player\<close>\<close>

text \<open>\<^verbatim>\<open>int(row[k])\<close>.\<close>

definition int_item :: "row \<Rightarrow> string \<Rightarrow> py_error + int" where
  "int_item d k = bindE (getitem d k) int_of_val"

text \<open>A dictionary display \<^verbatim>\<open>{k1: e1, k2: e2, ...}\<close>: the expressions are evaluated in order,
  the first exception ends the evaluation, and a later key overwrites an earlier equal one.\<close>

fun eval_items :: "(string \<times> (py_error + pyval)) list \<Rightarrow> py_error + (string \<times> pyval) list" where
  "eval_items [] = Inr []"
| "eval_items ((k, e) # items) =
     (case e of
        Inl err \<Rightarrow> Inl err
      | Inr v \<Rightarrow> (case eval_items items of Inl err \<Rightarrow> Inl err | Inr kvs \<Rightarrow> Inr ((k, v) # kvs)))"

definition dict_display :: "(string \<times> (py_error + pyval)) list \<Rightarrow> py_error + row" where
  "dict_display items = bindE (eval_items items) (\<lambda>kvs. Inr (map_of (rev kvs)))"

definition processed_items :: "row \<Rightarrow> int \<Rightarrow> int \<Rightarrow> (string \<times> (py_error + pyval)) list" where
  "processed_items row ast_rating athleticism =
     [(''name'', getitem row ''name''),
      (''englishName'', getitem row ''name''),
      (''position'', getitem row ''position''),
      (''playerType'', Inr (Some '''')),
      (''rotationType'', Inr (Some '''')),
      (''rating'', getitem row ''overallAttribute''),
      (''insideRating'', getitem row ''closeShot''),
      (''midRating'', getitem row ''midRangeShot''),
      (''threeRating'', getitem row ''threePointShot''),
      (''freeThrowPercent'', getitem row ''freeThrow''),
      (''interiorDefense'', getitem row ''interiorDefense''),
      (''perimeterDefense'', getitem row ''perimeterDefense''),
      (''orbRating'', getitem row ''offensiveRebound''),
      (''drbRating'', getitem row ''defensiveRebound''),
      (''astRating'', Inr (Some (py_str ast_rating))),
      (''stlRating'', getitem row ''steal''),
      (''blkRating'', getitem row ''block''),
      (''layupRating'', getitem row ''layup''),
      (''standDunk'', getitem row ''standingDunk''),
      (''drivingDunk'', getitem row ''drivingDunk''),
      (''athleticism'', Inr (Some (py_str athleticism))),
      (''durability'', getitem row ''overallDurability''),
      (''offConst'', getitem row ''offensiveConsistency''),
      (''defConst'', getitem row ''defensiveConsistency''),
      (''drawFoul'', getitem row ''drawFoul'')]"

definition process_player :: "row \<Rightarrow> py_error + row" where
  "process_player row =
     bindE (int_item row ''passAccuracy'') (\<lambda>pass_accuracy.
     bindE (int_item row ''passIQ'') (\<lambda>pass_iq.
     bindE (int_item row ''passVision'') (\<lambda>pass_vision.
     bindE (math_floor_truediv (pass_accuracy + pass_iq + pass_vision) 3) (\<lambda>ast_rating.
     bindE (int_item row ''speed'') (\<lambda>speed.
     bindE (int_item row ''agility'') (\<lambda>agility.
     bindE (int_item row ''strength'') (\<lambda>strength.
     bindE (int_item row ''vertical'') (\<lambda>vertical.
     bindE (int_item row ''stamina'') (\<lambda>stamina.
     bindE (int_item row ''hustle'') (\<lambda>hustle.
     bindE (math_floor_truediv (speed + agility + strength + vertical + stamina + hustle) 6)
       (\<lambda>athleticism.
     dict_display (processed_items row ast_rating athleticism))))))))))))"

section \<open>CSV files and the world\<close>

text \<open>
  A CSV file is the list of its records, each record the list of its cells; the first
  record is the header. \<^verbatim>\<open>csv.DictReader\<close> skips records without cells, pairs the cells
  of every other record with the header's names, fills the names a short record does not
  reach with \<^verbatim>\<open>None\<close>, and lets a later column of the same name overwrite an earlier one.
  (The surplus cells of a long record go under the key \<^verbatim>\<open>None\<close>, which the program never
  reads.) The world is the file system, a map from paths to files, and the lines printed so
  far.
\<close>

type_synonym csv_file = "string list list"

record world =
  files :: "string \<rightharpoonup> csv_file"
  stdout :: "string list"

definition dict_row :: "string list \<Rightarrow> string list \<Rightarrow> row" where
  "dict_row fieldnames cells =
     map_of (rev (zip fieldnames
       (map Some cells @ replicate (length fieldnames - length cells) None)))"

definition DictReader :: "csv_file \<Rightarrow> row list" where
  "DictReader f =
     (case f of
        [] \<Rightarrow> []
      | fieldnames # records \<Rightarrow> map (dict_row fieldnames) (filter (\<lambda>r. r \<noteq> []) records))"

text \<open>\<^verbatim>\<open>csv.DictWriter\<close> writes, for every name of \<open>fieldnames\<close>, the value the dictionary has
  there; an absent key and \<^verbatim>\<open>None\<close> are written as the empty cell.\<close>

definition csv_cell :: "row \<Rightarrow> string \<Rightarrow> string" where
  "csv_cell d k = (case d k of Some (Some s) \<Rightarrow> s | _ \<Rightarrow> [])"

definition dict_to_list :: "string list \<Rightarrow> row \<Rightarrow> string list" where
  "dict_to_list fieldnames d = map (csv_cell d) fieldnames"

definition write_csv :: "string \<Rightarrow> string list \<Rightarrow> row list \<Rightarrow> world \<Rightarrow> world" where
  "write_csv path fieldnames rows w =
     w\<lparr>files := (files w)(path \<mapsto> fieldnames # map (dict_to_list fieldnames) rows)\<rparr>"

definition print :: "string \<Rightarrow> world \<Rightarrow> world" where
  "print line w = w\<lparr>stdout := stdout w @ [line]\<rparr>"

definition os_path_join :: "string \<Rightarrow> string \<Rightarrow> string" where
  "os_path_join a b = (if a = [] \<or> last a = CHR ''/'' then a @ b else a @ ''/'' @ b)"

section \<open>\<^verbatim>\<open>read_existing_team_data\<close>\<close>

record existing_data =
  ex_name :: pyval
  ex_englishName :: pyval
  ex_position :: pyval
  ex_playerType :: pyval
  ex_rotationType :: pyval

text \<open>The body of the loop over the rows of the existing team file.\<close>

definition english_name_key :: "row \<Rightarrow> pyval" where
  "english_name_key row = dict_get row ''englishName'' (dict_get row ''name'' (Some ''''))"

definition existing_of_row :: "row \<Rightarrow> existing_data" where
  "existing_of_row row =
     \<lparr>ex_name = dict_get row ''name'' (Some ''''),
      ex_englishName = dict_get row ''englishName'' (Some ''''),
      ex_position = dict_get row ''position'' (Some ''''),
      ex_playerType = dict_get row ''playerType'' (Some ''''),
      ex_rotationType = dict_get row ''rotationType'' (Some '''')\<rparr>"

definition index_row :: "(string \<rightharpoonup> existing_data) \<Rightarrow> row \<Rightarrow> (string \<rightharpoonup> existing_data)" where
  "index_row player_info row =
     (case english_name_key row of
        Some english_name \<Rightarrow>
          if english_name \<noteq> [] then player_info(english_name \<mapsto> existing_of_row row)
          else player_info
      | None \<Rightarrow> player_info)"

definition index_rows :: "row list \<Rightarrow> (string \<rightharpoonup> existing_data)" where
  "index_rows rows = foldl index_row Map.empty rows"

definition read_existing_team_data ::
  "(string \<rightharpoonup> csv_file) \<Rightarrow> string \<Rightarrow> (string \<rightharpoonup> existing_data)" where
  "read_existing_team_data fs team_file_path =
     (case fs team_file_path of
        None \<Rightarrow> Map.empty
      | Some f \<Rightarrow> index_rows (DictReader f))"

section \<open>\<^verbatim>\<open>process_roster\<close> and \<^verbatim>\<open>main\<close>\<close>

text \<open>Reading the roster: \<open>players_by_team\<close> is a dictionary in insertion order, here a list
  of teams with their rows, a new team going to the end.\<close>

fun add_player :: "pyval \<Rightarrow> row \<Rightarrow> (pyval \<times> row list) list \<Rightarrow> (pyval \<times> row list) list" where
  "add_player team row [] = [(team, [row])]"
| "add_player team row ((t, ps) # rest) =
     (if t = team then (t, ps @ [row]) # rest else (t, ps) # add_player team row rest)"

fun group_by_team ::
  "row list \<Rightarrow> (pyval \<times> row list) list \<Rightarrow> py_error + (pyval \<times> row list) list" where
  "group_by_team [] players_by_team = Inr players_by_team"
| "group_by_team (row # rest) players_by_team =
     bindE (getitem row ''team'') (\<lambda>team.
       group_by_team rest (add_player team row players_by_team))"

text \<open>One pass of the loop over a team's players: the fresh record, with the five protected
  fields taken from the existing file when the roster name is a key of it.\<close>

definition preserve :: "existing_data \<Rightarrow> row \<Rightarrow> row" where
  "preserve existing processed =
     processed(''name'' \<mapsto> ex_name existing,
               ''englishName'' \<mapsto> ex_englishName existing,
               ''position'' \<mapsto> ex_position existing,
               ''playerType'' \<mapsto> ex_playerType existing,
               ''rotationType'' \<mapsto> ex_rotationType existing)"

definition merge_player :: "(string \<rightharpoonup> existing_data) \<Rightarrow> row \<Rightarrow> py_error + row" where
  "merge_player existing_player_info player_row =
     bindE (process_player player_row) (\<lambda>processed.
     bindE (getitem player_row ''name'') (\<lambda>player_english_name.
       case player_english_name of
         None \<Rightarrow> Inr processed
       | Some key \<Rightarrow>
           (case existing_player_info key of
              None \<Rightarrow> Inr processed
            | Some existing \<Rightarrow> Inr (preserve existing processed))))"

fun merge_players :: "(string \<rightharpoonup> existing_data) \<Rightarrow> row list \<Rightarrow> py_error + row list" where
  "merge_players existing_player_info [] = Inr []"
| "merge_players existing_player_info (player_row # rest) =
     bindE (merge_player existing_player_info player_row) (\<lambda>processed.
     bindE (merge_players existing_player_info rest) (\<lambda>processed_players.
       Inr (processed # processed_players)))"

text \<open>\<^verbatim>\<open>processed_players.sort(key=lambda x: int(x['rating']), reverse=True)\<close>: the keys of
  all records are computed first, then the records are sorted by descending key, records
  of equal key keeping their order.\<close>

definition rating_key :: "row \<Rightarrow> py_error + int" where
  "rating_key x = bindE (getitem x ''rating'') int_of_val"

fun rating_keys :: "row list \<Rightarrow> py_error + int list" where
  "rating_keys [] = Inr []"
| "rating_keys (x # xs) =
     bindE (rating_key x) (\<lambda>k. bindE (rating_keys xs) (\<lambda>ks. Inr (k # ks)))"

definition sort_by_rating :: "row list \<Rightarrow> py_error + row list" where
  "sort_by_rating xs =
     bindE (rating_keys xs) (\<lambda>ks. Inr (map snd (sort_key (\<lambda>p. - fst p) (zip ks xs))))"

definition fieldnames :: "string list" where
  "fieldnames =
     [''name'', ''englishName'', ''position'', ''playerType'', ''rotationType'',
      ''rating'', ''insideRating'', ''midRating'', ''threeRating'', ''freeThrowPercent'',
      ''interiorDefense'', ''perimeterDefense'', ''orbRating'', ''drbRating'', ''astRating'',
      ''stlRating'', ''blkRating'', ''layupRating'', ''standDunk'', ''drivingDunk'',
      ''athleticism'', ''durability'', ''offConst'', ''defConst'', ''drawFoul'']"

definition len_str :: "'a list \<Rightarrow> string" where
  "len_str xs = py_str (int (length xs))"

text \<open>The body of the loop over the teams. The result is the exception that ended it, if
  any, and the world at that moment.\<close>

definition process_team :: "string \<Rightarrow> pyval \<Rightarrow> row list \<Rightarrow> world \<Rightarrow> py_error option \<times> world" where
  "process_team output_dir team_full_name players w =
     (case team_code team_full_name of
        Some team_short_name \<Rightarrow>
          let output_file = os_path_join output_dir (team_short_name @ ''.csv'');
              existing_player_info = read_existing_team_data (files w) output_file;
              w1 = print (''Processing '' @ py_format team_full_name @ '' -> '' @ team_short_name
                          @ ''.csv ('' @ len_str players @ '' players)'') w
          in (case merge_players existing_player_info players of
                Inl e \<Rightarrow> (Some e, w1)
              | Inr processed_players \<Rightarrow>
                  (case sort_by_rating processed_players of
                     Inl e \<Rightarrow> (Some e, w1)
                   | Inr sorted_players \<Rightarrow>
                       (None,
                        print (''  -> Saved '' @ len_str sorted_players @ '' players to ''
                               @ output_file)
                          (write_csv output_file fieldnames sorted_players w1))))
      | None \<Rightarrow>
          (None,
           print (''Warning: No mapping found for team '' @ [CHR 0x27]
                  @ py_format team_full_name @ [CHR 0x27]) w))"

fun process_teams ::
  "string \<Rightarrow> (pyval \<times> row list) list \<Rightarrow> world \<Rightarrow> py_error option \<times> world" where
  "process_teams output_dir [] w = (None, w)"
| "process_teams output_dir ((team_full_name, players) # rest) w =
     (case process_team output_dir team_full_name players w of
        (Some e, w') \<Rightarrow> (Some e, w')
      | (None, w') \<Rightarrow> process_teams output_dir rest w')"

definition process_roster :: "string \<Rightarrow> string \<Rightarrow> world \<Rightarrow> py_error option \<times> world" where
  "process_roster input_file output_dir w =
     (case files w input_file of
        None \<Rightarrow> (Some (FileNotFoundError input_file), w)
      | Some f \<Rightarrow>
          (case group_by_team (DictReader f) [] of
             Inl e \<Rightarrow> (Some e, w)
           | Inr players_by_team \<Rightarrow> process_teams output_dir players_by_team w))"

definition input_file :: string where
  "input_file = ''public/data/rosters/temp.csv''"

definition output_dir :: string where
  "output_dir = ''public/data/rosters''"

definition main :: "world \<Rightarrow> py_error option \<times> world" where
  "main w =
     (if files w input_file = None then
        (None, print (''Error: Input file '' @ [CHR 0x27] @ input_file @ [CHR 0x27]
                      @ '' not found!'') w)
      else
        let w1 = print ''Starting roster processing...'' w;
            w2 = print (''Input file: '' @ input_file) w1;
            w3 = print (''Output directory: '' @ output_dir) w2;
            w4 = print (replicate 60 CHR ''-'') w3
        in (case process_roster input_file output_dir w4 of
              (Some e, w') \<Rightarrow> (Some e, w')
            | (None, w') \<Rightarrow>
                (None, print ''Roster processing completed!'' (print (replicate 60 CHR ''-'') w'))))"

section \<open>The output schema\<close>

text \<open>The five fields that are kept from an existing team file, the twenty that are always
  computed from the roster, and for those of the twenty that are copied the roster column
  each one comes from (\<open>astRating\<close> and \<open>athleticism\<close> are the two derived ones).\<close>

definition protected_fields :: "string list" where
  "protected_fields = take 5 fieldnames"

definition rating_fields :: "string list" where
  "rating_fields = drop 5 fieldnames"

definition copied_fields :: "(string \<times> string) list" where
  "copied_fields =
     [(''rating'', ''overallAttribute''),
      (''insideRating'', ''closeShot''),
      (''midRating'', ''midRangeShot''),
      (''threeRating'', ''threePointShot''),
      (''freeThrowPercent'', ''freeThrow''),
      (''interiorDefense'', ''interiorDefense''),
      (''perimeterDefense'', ''perimeterDefense''),
      (''orbRating'', ''offensiveRebound''),
      (''drbRating'', ''defensiveRebound''),
      (''stlRating'', ''steal''),
      (''blkRating'', ''block''),
      (''layupRating'', ''layup''),
      (''standDunk'', ''standingDunk''),
      (''drivingDunk'', ''drivingDunk''),
      (''durability'', ''overallDurability''),
      (''offConst'', ''offensiveConsistency''),
      (''defConst'', ''defensiveConsistency''),
      (''drawFoul'', ''drawFoul'')]"

text \<open>The values of the dictionary display of \<open>process_player\<close>, once every item has
  been evaluated.\<close>

definition fresh_values :: "row \<Rightarrow> int \<Rightarrow> int \<Rightarrow> (string \<times> pyval) list" where
  "fresh_values row a b = map (\<lambda>(k, e). (k, projr e)) (processed_items row a b)"

section \<open>A small roster\<close>

text \<open>The columns of the roster file, and a record of it with the given team, name,
  position and overall rating; the other cells are fixed (passing 70, 70, 71 and
  athletic values 80, 80, 80, 80, 80, 85).\<close>

definition roster_header :: "string list" where
  "roster_header =
     [''team'', ''name'', ''position'', ''overallAttribute'', ''closeShot'', ''midRangeShot'',
      ''threePointShot'', ''freeThrow'', ''interiorDefense'', ''perimeterDefense'',
      ''offensiveRebound'', ''defensiveRebound'', ''passAccuracy'', ''passIQ'', ''passVision'',
      ''steal'', ''block'', ''layup'', ''standingDunk'', ''drivingDunk'', ''speed'', ''agility'',
      ''strength'', ''vertical'', ''stamina'', ''hustle'', ''overallDurability'',
      ''offensiveConsistency'', ''defensiveConsistency'', ''drawFoul'']"

definition roster_record :: "string \<Rightarrow> string \<Rightarrow> string \<Rightarrow> string \<Rightarrow> string list" where
  "roster_record team player position rating =
     [team, player, position, rating, ''60'', ''61'',
      ''62'', ''63'', ''64'', ''65'',
      ''66'', ''67'', ''70'', ''70'', ''71'',
      ''68'', ''69'', ''72'', ''73'', ''74'', ''80'', ''80'',
      ''80'', ''80'', ''80'', ''85'', ''75'',
      ''76'', ''77'', ''78'']"

definition roster_row :: "string \<Rightarrow> string \<Rightarrow> string \<Rightarrow> string \<Rightarrow> row" where
  "roster_row team player position rating =
     dict_row roster_header (roster_record team player position rating)"

text \<open>The record \<open>process_player\<close> makes of such a row.\<close>

definition roster_player :: "string \<Rightarrow> string \<Rightarrow> string \<Rightarrow> row" where
  "roster_player player position rating =
     map_of
       [(''name'', Some player), (''englishName'', Some player), (''position'', Some position),
        (''playerType'', Some []), (''rotationType'', Some []), (''rating'', Some rating),
        (''insideRating'', Some ''60''), (''midRating'', Some ''61''),
        (''threeRating'', Some ''62''), (''freeThrowPercent'', Some ''63''),
        (''interiorDefense'', Some ''64''), (''perimeterDefense'', Some ''65''),
        (''orbRating'', Some ''66''), (''drbRating'', Some ''67''),
        (''astRating'', Some ''70''), (''stlRating'', Some ''68''), (''blkRating'', Some ''69''),
        (''layupRating'', Some ''72''), (''standDunk'', Some ''73''),
        (''drivingDunk'', Some ''74''), (''athleticism'', Some ''80''),
        (''durability'', Some ''75''), (''offConst'', Some ''76''), (''defConst'', Some ''77''),
        (''drawFoul'', Some ''78'')]"

text \<open>An entry of the existing-player index for John Doe, and three small team files: one
  that lists John Doe twice, one whose only row has an empty \<open>englishName\<close> cell, and one
  without an \<open>englishName\<close> column.\<close>

definition john_doe_entry :: existing_data where
  "john_doe_entry =
     \<lparr>ex_name = Some ''Johnny'', ex_englishName = Some ''John Doe'', ex_position = Some ''SG'',
      ex_playerType = Some ''Starter'', ex_rotationType = Some ''Bench''\<rparr>"

definition duplicate_file :: csv_file where
  "duplicate_file =
     [[''name'', ''englishName'', ''position'', ''playerType'', ''rotationType''],
      [''Johnny'', ''John Doe'', ''PG'', ''Starter'', ''First''],
      [''Jack'', ''Jack Roe'', ''C'', ''Center'', ''First''],
      [''John'', ''John Doe'', ''SG'', ''Reserve'', ''Second'']]"

definition blank_english_name_file :: csv_file where
  "blank_english_name_file =
     [[''name'', ''englishName'', ''position'', ''playerType'', ''rotationType''],
      [''John Doe'', [], ''PG'', ''Starter'', ''First'']]"

definition no_english_name_file :: csv_file where
  "no_english_name_file =
     [[''name'', ''position'', ''playerType'', ''rotationType''],
      [''John Doe'', ''PG'', ''Starter'', ''First'']]"

text \<open>The nine roster columns that \<open>process_player\<close> converts with \<^verbatim>\<open>int\<close>; with
  \<open>overallAttribute\<close>, the sort key, they are the required numeric columns.\<close>

definition numeric_fields :: "string list" where
  "numeric_fields =
     [''passAccuracy'', ''passIQ'', ''passVision'', ''speed'', ''agility'', ''strength'',
      ''vertical'', ''stamina'', ''hustle'']"

text \<open>A roster file whose only row has an overall rating that is not a number.\<close>

definition malformed_roster :: csv_file where
  "malformed_roster =
     [roster_header, roster_record ''Atlanta Hawks'' ''John Doe'' ''PG'' ''abc'']"

text \<open>Two players of one team, the lower rating first, and a world without files.\<close>

definition two_hawks :: "row list" where
  "two_hawks =
     [roster_row ''Atlanta Hawks'' ''Al Nine'' ''PG'' ''9'',
      roster_row ''Atlanta Hawks'' ''Bo Ten'' ''SG'' ''10'']"

definition empty_world :: world where
  "empty_world = \<lparr>files = Map.empty, stdout = []\<rparr>"

text \<open>A roster row whose passing values add up to \<open>3 * 2 ^ 52 + 2\<close>, and the field of a
  record that may have failed to be computed.\<close>

definition rounding_row :: row where
  "rounding_row =
     dict_row roster_header
       [''Atlanta Hawks'', ''John Doe'', ''PG'', ''85'', ''60'', ''61'',
        ''62'', ''63'', ''64'', ''65'',
        ''66'', ''67'', ''13510798882111490'', ''0'', ''0'',
        ''68'', ''69'', ''72'', ''73'', ''74'', ''80'', ''80'',
        ''80'', ''80'', ''80'', ''85'', ''75'',
        ''76'', ''77'', ''78'']"

definition field_of :: "string \<Rightarrow> py_error + row \<Rightarrow> py_error + pyval" where
  "field_of k r = bindE r (\<lambda>p. getitem p k)"

section \<open>Reading a team file back\<close>

text \<open>The row \<^verbatim>\<open>csv.DictReader\<close> gives for a record that \<^verbatim>\<open>csv.DictWriter\<close> wrote from the
  dictionary \<open>x\<close>, and the cell a value is written as.\<close>

definition reread :: "row \<Rightarrow> row" where
  "reread x = dict_row fieldnames (dict_to_list fieldnames x)"

definition cell_of :: "pyval \<Rightarrow> string" where
  "cell_of v = (case v of None \<Rightarrow> [] | Some s \<Rightarrow> s)"

text \<open>Two records that are written as the same cells and have the same sort key.\<close>

definition same_cells :: "row \<Rightarrow> row \<Rightarrow> bool" where
  "same_cells x y \<longleftrightarrow>
     dict_to_list fieldnames x = dict_to_list fieldnames y \<and> x ''rating'' = y ''rating''"


section \<open>Rosters for two runs in a row\<close>

text \<open>The record of a team file that has the five protected cells given, the rating given,
  and in the other columns what \<open>process_player\<close> makes of a \<open>roster_record\<close>.\<close>

definition team_record ::
  "string \<Rightarrow> string \<Rightarrow> string \<Rightarrow> string \<Rightarrow> string \<Rightarrow> string \<Rightarrow> string list" where
  "team_record name english_name position player_type rotation_type rating =
     [name, english_name, position, player_type, rotation_type, rating, ''60'', ''61'', ''62'',
      ''63'', ''64'', ''65'', ''66'', ''67'', ''70'', ''68'', ''69'', ''72'', ''73'', ''74'',
      ''80'', ''75'', ''76'', ''77'', ''78'']"

text \<open>A roster with two players of one team who have the same display name and different
  positions, and a roster with two players of different names; the worlds hold the roster
  at the input path and no team file.\<close>

definition same_name_roster :: csv_file where
  "same_name_roster =
     [roster_header,
      roster_record ''Atlanta Hawks'' ''John Doe'' ''PG'' ''85'',
      roster_record ''Atlanta Hawks'' ''John Doe'' ''SG'' ''90'']"

definition same_name_world :: world where
  "same_name_world = \<lparr>files = [input_file \<mapsto> same_name_roster], stdout = []\<rparr>"

definition two_hawks_roster :: csv_file where
  "two_hawks_roster =
     [roster_header,
      roster_record ''Atlanta Hawks'' ''Al Nine'' ''PG'' ''9'',
      roster_record ''Atlanta Hawks'' ''Bo Ten'' ''SG'' ''10'']"

definition two_hawks_world :: world where
  "two_hawks_world = \<lparr>files = [input_file \<mapsto> two_hawks_roster], stdout = []\<rparr>"

text \<open>A roster with one player, and a world where the team file of an earlier version of
  the program, without an \<open>englishName\<close> column, lists that player.\<close>

definition one_hawk_roster :: csv_file where
  "one_hawk_roster = [roster_header, roster_record ''Atlanta Hawks'' ''John Doe'' ''SG'' ''85'']"

definition legacy_world :: world where
  "legacy_world =
     \<lparr>files = [input_file \<mapsto> one_hawk_roster,
                ''public/data/rosters/Hawks.csv'' \<mapsto> no_english_name_file],
      stdout = []\<rparr>"
section \<open>Basic facts about the embedding\<close>

lemma bindE_Inr [simp]: "bindE (Inr a) f = f a"
  by (simp add: bindE_def)

lemma bindE_Inl [simp]: "bindE (Inl e) f = Inl e"
  by (simp add: bindE_def)

lemma bindE_eq_Inr: "bindE m f = Inr y \<longleftrightarrow> (\<exists>a. m = Inr a \<and> f a = Inr y)"
  by (cases m) simp_all

lemma bindE_eq_Inl: "bindE m f = Inl e \<longleftrightarrow> m = Inl e \<or> (\<exists>a. m = Inr a \<and> f a = Inl e)"
  by (cases m) simp_all

lemma getitem_eq_Inr [simp]: "getitem d k = Inr v \<longleftrightarrow> d k = Some v"
  by (simp add: getitem_def split: option.splits)

lemma eval_items_Inr:
  assumes "eval_items items = Inr kvs"
  shows "kvs = map (\<lambda>(k, e). (k, projr e)) items \<and> (\<forall>(k, e) \<in> set items. \<exists>v. e = Inr v)"
  using assms
proof (induction items arbitrary: kvs)
  case Nil
  then show ?case by simp
next
  case (Cons item items)
  obtain k e where item: "item = (k, e)" by (cases item)
  from Cons.prems obtain v kvs' where e: "e = Inr v" and rest: "eval_items items = Inr kvs'"
    and kvs: "kvs = (k, v) # kvs'"
    unfolding item by (auto split: sum.splits)
  from Cons.IH [OF rest] show ?case
    unfolding item by (simp add: e kvs)
qed

lemma dict_display_Inr:
  assumes "dict_display items = Inr p"
  shows "p = map_of (rev (map (\<lambda>(k, e). (k, projr e)) items))"
    and "\<And>k e. (k, e) \<in> set items \<Longrightarrow> \<exists>v. e = Inr v"
proof -
  from assms obtain kvs where kvs: "eval_items items = Inr kvs" and p: "p = map_of (rev kvs)"
    by (auto simp: dict_display_def bindE_eq_Inr)
  from eval_items_Inr [OF kvs] p show "p = map_of (rev (map (\<lambda>(k, e). (k, projr e)) items))"
    by simp
  fix k e assume "(k, e) \<in> set items"
  with eval_items_Inr [OF kvs] show "\<exists>v. e = Inr v" by auto
qed

lemma bit_length_bounds:
  "0 < n \<Longrightarrow> 2 ^ (bit_length n - 1) \<le> n \<and> n < 2 ^ bit_length n"
proof (induction n rule: bit_length.induct)
  case (1 n)
  show ?case
  proof (cases "n div 2 = 0")
    case True
    with "1.prems" have "n = 1" by (simp add: div_eq_0_iff) 
    then show ?thesis by (simp add: bit_length.simps)
  next
    case False
    with "1.prems" "1.IH" have IH: "2 ^ (bit_length (n div 2) - 1) \<le> n div 2"
      "n div 2 < 2 ^ bit_length (n div 2)" by simp_all
    from False have pos: "0 < bit_length (n div 2)"
      by (subst bit_length.simps) simp
    have bl: "bit_length n = Suc (bit_length (n div 2))"
      using "1.prems" by (subst bit_length.simps) simp
    from pos have "(2::nat) ^ bit_length (n div 2) = 2 * 2 ^ (bit_length (n div 2) - 1)"
      by (cases "bit_length (n div 2)") simp_all
    with IH(1) have "2 ^ bit_length (n div 2) \<le> 2 * (n div 2)" by simp
    also have "\<dots> \<le> n" by simp
    finally have lo: "2 ^ (bit_length n - 1) \<le> n" by (simp add: bl)
    from IH(2) have "n < 2 * 2 ^ bit_length (n div 2)" by linarith
    then have "n < 2 ^ bit_length n" by (simp add: bl)
    with lo show ?thesis by simp
  qed
qed

lemma round_half_even_near: "\<bar>of_int (round_half_even y) - y\<bar> \<le> 1 / 2"
proof -
  have "of_int \<lfloor>y\<rfloor> \<le> y" "y < of_int \<lfloor>y\<rfloor> + 1" by linarith+
  then show ?thesis
    by (auto simp: round_half_even_def Let_def abs_le_iff)
qed

lemma round_half_even_of_int [simp]: "round_half_even (of_int z) = z"
  by (simp add: round_half_even_def)

lemma ilog2_le:
  assumes "0 < x"
  shows "2 powi (ilog2 x) \<le> x"
proof -
  obtain n d where q: "quotient_of x = (n, d)" by (cases "quotient_of x")
  then have d: "0 < d" and x: "x = of_int n / of_int d"
    by (simp_all add: quotient_of_denom_pos quotient_of_div)
  from assms d x have n: "0 < n" by (simp add: zero_less_divide_iff)
  let ?a = "bit_length (nat n)" and ?b = "bit_length (nat d)"
  from n have "2 ^ (?a - 1) \<le> nat n" using bit_length_bounds [of "nat n"] by simp
  then have lo: "(2::rat) ^ (?a - 1) \<le> of_int n"
    using n by (metis of_nat_le_iff of_nat_numeral of_nat_power less_imp_le of_nat_nat)
  from d have "nat d < 2 ^ ?b" using bit_length_bounds [of "nat d"] by simp
  then have hi: "(of_int d :: rat) \<le> 2 ^ ?b"
    using d by (metis less_imp_le of_nat_less_iff of_nat_numeral of_nat_power of_nat_nat)
  from n have apos: "0 < ?a" by (subst bit_length.simps) simp
  from apos have "int ?a - int ?b - 1 = int (?a - 1) - int ?b" by linarith
  then have "(2::rat) powi (int ?a - int ?b - 1) = 2 powi (int (?a - 1) - int ?b)"
    by (rule arg_cong)
  also have "\<dots> = 2 ^ (?a - 1) / 2 ^ ?b"
    by (simp add: power_int_diff)
  also have "\<dots> \<le> of_int n / of_int d"
    using lo hi d n by (intro frac_le) simp_all
  finally have low: "(2::rat) powi (int ?a - int ?b - 1) \<le> x" by (simp add: x)
  show ?thesis
    using low by (auto simp: ilog2_def q Let_def)
qed


lemma ilog2_bound:
  assumes "0 < x" and "x < 2 ^ k"
  shows "ilog2 x < int k"
proof (rule ccontr)
  assume "\<not> ilog2 x < int k"
  then have "int k \<le> ilog2 x" by simp
  then have "(2::rat) powi int k \<le> 2 powi ilog2 x"
    by (intro power_int_increasing) simp_all
  with ilog2_le [OF assms(1)] have "(2::rat) ^ k \<le> x" by simp
  with assms(2) show False by simp
qed

text \<open>Below \<open>2 ^ (52 - j)\<close> the doubles are at most \<open>1 / 2 ^ (j + 1)\<close> apart: integers are
  exact, and rounding moves a number by at most half of that.\<close>

lemma round_to_double_small:
  assumes "x \<noteq> 0" and "\<bar>x\<bar> < 2 ^ (52 - j)" and "j \<le> 52"
  shows "\<exists>r. round_to_double x = Some r \<and> \<bar>r - x\<bar> \<le> 1 / 2 ^ (j + 2)
           \<and> (x \<in> \<int> \<longrightarrow> r = x)"
proof -
  define e where "e = max (ilog2 \<bar>x\<bar>) (- 1022)"
  define m where "m = nat (52 - e)"
  define y where "y = \<bar>x\<bar> * 2 ^ m"
  define r where "r = sgn x * of_int (round_half_even y) / 2 ^ m"
  from assms(1) have xpos: "0 < \<bar>x\<bar>" by simp
  from ilog2_bound [OF xpos assms(2)] assms(3) have "ilog2 \<bar>x\<bar> < 52 - int j"
    by simp
  with assms(3) have e: "e < 52 - int j"
    by (simp add: e_def)
  then have mj: "j + 1 \<le> m" "e - 52 = - int m" "0 < m"
    unfolding m_def by linarith+
  have ulp: "(2::rat) powi (e - 52) = 1 / 2 ^ m"
    unfolding mj(2) by (simp add: power_int_minus_divide)
  have near: "\<bar>of_int (round_half_even y) - y\<bar> \<le> 1 / 2"
    by (rule round_half_even_near)
  have r_x: "r - x = sgn x * (of_int (round_half_even y) - y) / 2 ^ m"
  proof -
    have "sgn x * y / 2 ^ m = x"
      by (simp add: y_def flip: abs_sgn mult.assoc) (metis mult_sgn_abs)
    then show ?thesis
      by (simp add: r_def algebra_simps diff_divide_distrib)
  qed
  have "\<bar>r - x\<bar> = \<bar>of_int (round_half_even y) - y\<bar> / 2 ^ m"
    unfolding r_x using assms(1) by (simp add: abs_mult abs_sgn_eq)
  also have "\<dots> \<le> (1 / 2) / 2 ^ m"
    using near by (intro divide_right_mono) simp_all
  also have "\<dots> = 1 / 2 ^ (m + 1)" by simp
  also have "\<dots> \<le> 1 / 2 ^ (j + 2)"
    using mj(1) by (intro divide_left_mono power_increasing) simp_all
  finally have err: "\<bar>r - x\<bar> \<le> 1 / 2 ^ (j + 2)" .
  have exact: "r = x" if "x \<in> \<int>"
  proof -
    from that obtain z where z: "x = of_int z" by (auto elim: Ints_cases)
    have "y = of_int (\<bar>z\<bar> * 2 ^ m)" by (simp add: y_def z)
    then have "round_half_even y = \<bar>z\<bar> * 2 ^ m" by (simp only: round_half_even_of_int)
    then have "r = sgn x * \<bar>x\<bar>" by (simp add: r_def z)
    then show ?thesis by (simp add: mult_sgn_abs)
  qed
  have "(1::rat) \<le> 2 ^ (j + 2)" by (rule one_le_power) simp
  then have "1 / (2::rat) ^ (j + 2) \<le> 1" by (simp add: divide_le_eq)
  with err have "\<bar>r\<bar> \<le> \<bar>x\<bar> + 1" by linarith
  also have "\<dots> < 2 ^ (52 - j) + 1" using assms(2) by simp
  also have "\<dots> \<le> 2 ^ 52 + (1::rat)"
    by (intro add_right_mono power_increasing) simp_all
  also have "\<dots> < 2 ^ 1024" by simp
  finally have fin: "\<not> 2 ^ 1024 \<le> \<bar>r\<bar>" by simp
  have "round_to_double x = Some r"
    using assms(1) fin
    by (simp add: round_to_double_def Let_def e_def [symmetric] ulp r_def y_def)
  with err exact show ?thesis by blast
qed


lemma math_floor_truediv_exact:
  assumes "0 < d" and "of_int d < (2::rat) ^ (j + 2)" and "\<bar>of_int s / of_int d\<bar> < (2::rat) ^ (52 - j)"
    and "j \<le> 52"
  shows "math_floor_truediv s d = Inr (s div d)"
proof (cases "s = 0")
  case True
  with assms(1) show ?thesis
    by (simp add: math_floor_truediv_def int_truediv_def round_to_double_def)
next
  case False
  define x :: rat where "x = of_int s / of_int d"
  define q where "q = s div d"
  define m where "m = s mod d"
  from False assms(1) have x0: "x \<noteq> 0" by (simp add: x_def)
  from round_to_double_small [OF x0 assms(3) [folded x_def] assms(4)]
  obtain r where r: "round_to_double x = Some r" and err: "\<bar>r - x\<bar> \<le> 1 / 2 ^ (j + 2)"
    and exact: "x \<in> \<int> \<longrightarrow> r = x" by blast
  have s: "s = q * d + m" by (simp add: q_def m_def)
  from assms(1) have m: "0 \<le> m" "m < d" by (simp_all add: m_def)
  from assms(1) have x: "x = of_int q + of_int m / of_int d"
    by (simp add: x_def s add_divide_distrib)
  have "\<lfloor>r\<rfloor> = q"
  proof (cases "m = 0")
    case True
    with x have "x = of_int q" by simp
    with exact have "r = of_int q" by simp
    then show ?thesis by simp
  next
    case False
    with m have m1: "1 \<le> m" "m \<le> d - 1" by simp_all
    from assms(1,2) have small: "1 / (2::rat) ^ (j + 2) < 1 / of_int d"
      by (simp add: divide_simps)
    from m1(1) assms(1) have "1 / of_int d \<le> (of_int m :: rat) / of_int d"
      by (intro divide_right_mono) simp_all
    with x have lo: "of_int q + 1 / of_int d \<le> x" by simp
    from m1(2) have "(of_int m :: rat) \<le> of_int d - 1" 
      by (metis of_int_1 of_int_diff of_int_le_iff)
    with assms(1) have "(of_int m :: rat) / of_int d \<le> (of_int d - 1) / of_int d"
      by (intro divide_right_mono) simp_all
    also have "\<dots> = 1 - 1 / of_int d" using assms(1) by (simp add: diff_divide_distrib)
    finally have hi: "x \<le> of_int q + 1 - 1 / of_int d" using x by simp
    from err small lo hi have "of_int q \<le> r" "r < of_int q + 1" by linarith+
    then show ?thesis by (rule floor_unique)
  qed
  with r assms(1) show ?thesis
    by (simp add: math_floor_truediv_def int_truediv_def x_def [symmetric] q_def)
qed

lemma math_floor_truediv_3:
  assumes "\<bar>s\<bar> < 3 * 2 ^ 52"
  shows "math_floor_truediv s 3 = Inr (s div 3)"
proof (rule math_floor_truediv_exact [where j = 0])
  have "\<bar>(of_int s :: rat) / of_int 3\<bar> = of_int \<bar>s\<bar> / 3" by simp
  also have "\<dots> < of_int (3 * 2 ^ 52) / 3"
  proof (rule divide_strict_right_mono)
    show "(of_int \<bar>s\<bar> :: rat) < of_int (3 * 2 ^ 52)"
      using assms by (simp only: of_int_less_iff)
  qed simp
  finally show "\<bar>(of_int s :: rat) / of_int 3\<bar> < 2 ^ (52 - 0)" by simp
qed simp_all

lemma math_floor_truediv_6:
  assumes "\<bar>s\<bar> < 3 * 2 ^ 52"
  shows "math_floor_truediv s 6 = Inr (s div 6)"
proof (rule math_floor_truediv_exact [where j = 1])
  have "\<bar>(of_int s :: rat) / of_int 6\<bar> = of_int \<bar>s\<bar> / 6" by simp
  also have "\<dots> < of_int (3 * 2 ^ 52) / 6"
  proof (rule divide_strict_right_mono)
    show "(of_int \<bar>s\<bar> :: rat) < of_int (3 * 2 ^ 52)"
      using assms by (simp only: of_int_less_iff)
  qed simp
  finally show "\<bar>(of_int s :: rat) / of_int 6\<bar> < 2 ^ (52 - 1)" by simp
qed simp_all

lemma process_player_Inr:
  assumes "process_player row = Inr p"
  obtains pa pq pv sp ag st ve sm hu a b where
    "int_item row ''passAccuracy'' = Inr pa" "int_item row ''passIQ'' = Inr pq"
    "int_item row ''passVision'' = Inr pv"
    "math_floor_truediv (pa + pq + pv) 3 = Inr a"
    "int_item row ''speed'' = Inr sp" "int_item row ''agility'' = Inr ag"
    "int_item row ''strength'' = Inr st" "int_item row ''vertical'' = Inr ve"
    "int_item row ''stamina'' = Inr sm" "int_item row ''hustle'' = Inr hu"
    "math_floor_truediv (sp + ag + st + ve + sm + hu) 6 = Inr b"
    "dict_display (processed_items row a b) = Inr p"
  using assms unfolding process_player_def bindE_eq_Inr by blast

lemma getitem_Some: "d k = Some v \<Longrightarrow> getitem d k = Inr v"
  by (simp add: getitem_def)

lemma fresh_values_eq: "fresh_values row a b = 
     [(''name'', projr (getitem row ''name'')),
      (''englishName'', projr (getitem row ''name'')),
      (''position'', projr (getitem row ''position'')),
      (''playerType'', Some ''''),
      (''rotationType'', Some ''''),
      (''rating'', projr (getitem row ''overallAttribute'')),
      (''insideRating'', projr (getitem row ''closeShot'')),
      (''midRating'', projr (getitem row ''midRangeShot'')),
      (''threeRating'', projr (getitem row ''threePointShot'')),
      (''freeThrowPercent'', projr (getitem row ''freeThrow'')),
      (''interiorDefense'', projr (getitem row ''interiorDefense'')),
      (''perimeterDefense'', projr (getitem row ''perimeterDefense'')),
      (''orbRating'', projr (getitem row ''offensiveRebound'')),
      (''drbRating'', projr (getitem row ''defensiveRebound'')),
      (''astRating'', Some (py_str a)),
      (''stlRating'', projr (getitem row ''steal'')),
      (''blkRating'', projr (getitem row ''block'')),
      (''layupRating'', projr (getitem row ''layup'')),
      (''standDunk'', projr (getitem row ''standingDunk'')),
      (''drivingDunk'', projr (getitem row ''drivingDunk'')),
      (''athleticism'', Some (py_str b)),
      (''durability'', projr (getitem row ''overallDurability'')),
      (''offConst'', projr (getitem row ''offensiveConsistency'')),
      (''defConst'', projr (getitem row ''defensiveConsistency'')),
      (''drawFoul'', projr (getitem row ''drawFoul''))]"
  unfolding fresh_values_def processed_items_def by simp

lemma fst_processed_items: "map fst (processed_items row a b) = fieldnames"
  by (simp add: processed_items_def fieldnames_def)

lemma distinct_fieldnames: "distinct fieldnames"
  by (simp add: fieldnames_def)

lemma processed_row:
  assumes "dict_display (processed_items row a b) = Inr p"
  shows "p = map_of (fresh_values row a b)"
proof -
  have "map fst (fresh_values row a b) = fieldnames"
    unfolding fresh_values_def using fst_processed_items [of row a b]
    by (simp add: case_prod_unfold comp_def)
  then have "distinct (map fst (fresh_values row a b))"
    by (simp add: distinct_fieldnames)
  then have "map_of (rev (fresh_values row a b)) = map_of (fresh_values row a b)"
    by (subst map_of_inject_set) (simp_all add: distinct_map)
  then show ?thesis
    using dict_display_Inr(1) [OF assms] by (simp add: fresh_values_def)
qed

lemma processed_dom:
  assumes "dict_display (processed_items row a b) = Inr p"
  shows "dom p = set fieldnames"
proof -
  have "dom p = fst ` set (fresh_values row a b)"
    unfolding processed_row [OF assms] by (rule dom_map_of_conv_image_fst)
  also have "\<dots> = set (map fst (fresh_values row a b))" by simp
  also have "map fst (fresh_values row a b) = fieldnames"
    unfolding fresh_values_def using fst_processed_items [of row a b]
    by (simp add: case_prod_unfold comp_def)
  finally show ?thesis .
qed

lemma processed_fields:
  assumes "dict_display (processed_items row a b) = Inr p"
  shows "p ''name'' = row ''name''" and "p ''englishName'' = row ''name''"
    and "p ''position'' = row ''position''"
    and "p ''playerType'' = Some (Some [])" and "p ''rotationType'' = Some (Some [])"
    and "p ''astRating'' = Some (Some (py_str a))"
    and "p ''athleticism'' = Some (Some (py_str b))"
    and "row ''name'' \<noteq> None"
proof -
  note p = processed_row [OF assms]
  have src: "Some (projr (getitem row s)) = row s"
    if "(k, getitem row s) \<in> set (processed_items row a b)" for k s
    using dict_display_Inr(2) [OF assms that] by (auto simp: getitem_def split: option.splits)
  have name: "Some (projr (getitem row ''name'')) = row ''name''"
    by (rule src [of "''name''"]) (simp add: processed_items_def)
  have position: "Some (projr (getitem row ''position'')) = row ''position''"
    by (rule src [of "''position''"]) (simp add: processed_items_def)
  show "row ''name'' \<noteq> None" using name by (metis option.distinct(1))
  show "p ''name'' = row ''name''"
    unfolding p fresh_values_eq using name by simp
  show "p ''englishName'' = row ''name''"
    unfolding p fresh_values_eq using name by simp
  show "p ''position'' = row ''position''"
    unfolding p fresh_values_eq using position by simp
  show "p ''playerType'' = Some (Some [])" unfolding p fresh_values_eq by simp
  show "p ''rotationType'' = Some (Some [])" unfolding p fresh_values_eq by simp
  show "p ''astRating'' = Some (Some (py_str a))" unfolding p fresh_values_eq by simp
  show "p ''athleticism'' = Some (Some (py_str b))" unfolding p fresh_values_eq by simp
qed

lemma copied_items_sub:
  "list_all (\<lambda>(out, s). (out, getitem row s) \<in> set (processed_items row a b)) copied_fields"
  by (simp add: copied_fields_def processed_items_def)

lemma copied_lookup:
  "list_all (\<lambda>(out, s). map_of (fresh_values row a b) out = Some (projr (getitem row s)))
     copied_fields"
  by (simp add: copied_fields_def fresh_values_eq)

lemma processed_copied:
  assumes "dict_display (processed_items row a b) = Inr p"
    and "(out, s) \<in> set copied_fields"
  shows "p out = row s"
proof -
  from assms(2) copied_items_sub [of row a b]
  have "(out, getitem row s) \<in> set (processed_items row a b)"
    by (auto simp: list_all_iff)
  from dict_display_Inr(2) [OF assms(1) this]
  have "Some (projr (getitem row s)) = row s"
    by (auto simp: getitem_def split: option.splits)
  moreover from assms(2) copied_lookup [of row a b]
  have "p out = Some (projr (getitem row s))"
    unfolding processed_row [OF assms(1)] by (auto simp: list_all_iff)
  ultimately show ?thesis by simp
qed

lemma index_row_cases:
  "index_row m r =
     (case english_name_key r of
        Some k \<Rightarrow> if k \<noteq> [] then m(k \<mapsto> existing_of_row r) else m
      | None \<Rightarrow> m)"
  by (simp add: index_row_def)

lemma index_rows_snoc: "index_rows (rows @ [r]) = index_row (index_rows rows) r"
  by (simp add: index_rows_def)

lemma index_rows_lookup:
  "index_rows rows k =
     map_option existing_of_row
       (List.find (\<lambda>r. english_name_key r = Some k \<and> k \<noteq> []) (rev rows))"
proof (induction rows rule: rev_induct)
  case Nil
  then show ?case by (simp add: index_rows_def)
next
  case (snoc x xs)
  show ?case
  proof (cases "english_name_key x = Some k \<and> k \<noteq> []")
    case True
    then show ?thesis
      by (simp add: index_rows_snoc index_row_def)
  next
    case False
    then have "index_row (index_rows xs) x k = index_rows xs k"
      by (auto simp: index_row_def split: option.splits)
    with False snoc.IH show ?thesis
      by (auto simp: index_rows_snoc)
  qed
qed

lemma find_append_cases:
  "List.find P (xs @ ys) = (case List.find P xs of None \<Rightarrow> List.find P ys | Some x \<Rightarrow> Some x)"
  by (induction xs) simp_all

lemma index_rows_last:
  assumes "english_name_key r = Some k" and "k \<noteq> []"
    and "\<forall>r' \<in> set rs2. english_name_key r' \<noteq> Some k"
  shows "index_rows (rs1 @ r # rs2) k = Some (existing_of_row r)"
proof -
  from assms(3) have "List.find (\<lambda>r. english_name_key r = Some k \<and> k \<noteq> []) (rev rs2) = None"
    by (auto simp: find_None_iff)
  with assms(1,2) show ?thesis
    by (simp add: index_rows_lookup find_append_cases)
qed

lemma index_rows_None:
  "index_rows rows k = None \<longleftrightarrow> (k = [] \<or> (\<forall>r \<in> set rows. english_name_key r \<noteq> Some k))"
  by (auto simp: index_rows_lookup find_None_iff)

lemma english_name_key_eq:
  "english_name_key r = Some k \<longleftrightarrow>
     r ''englishName'' = Some (Some k)
     \<or> (r ''englishName'' = None \<and> r ''name'' = Some (Some k))
     \<or> (r ''englishName'' = None \<and> r ''name'' = None \<and> k = [])"
  by (auto simp: english_name_key_def dict_get_def split: option.splits)

lemma merge_player_matched:
  assumes "process_player row = Inr fresh" and "row ''name'' = Some (Some key)"
    and "existing key = Some ex"
  shows "merge_player existing row = Inr (preserve ex fresh)"
  using assms by (simp add: merge_player_def getitem_def)

lemma merge_player_unmatched:
  assumes "process_player row = Inr fresh"
    and "\<forall>key. row ''name'' = Some (Some key) \<longrightarrow> existing key = None"
  shows "merge_player existing row = Inr fresh"
proof -
  from assms(1) have "row ''name'' \<noteq> None"
    by (elim process_player_Inr) (rule processed_fields)
  then obtain v where v: "row ''name'' = Some v" by auto
  with assms show ?thesis
    by (cases v) (simp_all add: merge_player_def getitem_def)
qed

lemma merge_player_Inr:
  assumes "merge_player existing row = Inr p"
  obtains fresh where "process_player row = Inr fresh"
  using assms by (auto simp: merge_player_def bindE_eq_Inr)

lemma map_of_rev_distinct:
  assumes "distinct (map fst xs)"
  shows "map_of (rev xs) = map_of xs"
  using assms by (subst map_of_inject_set) (simp_all add: distinct_map)

lemma dict_row_distinct:
  assumes "distinct names" and "length cells = length names"
  shows "dict_row names cells = map_of (zip names (map Some cells))"
proof -
  have "distinct (map fst (zip names (map Some cells)))"
    using assms by simp
  then have "map_of (rev (zip names (map Some cells))) = map_of (zip names (map Some cells))"
    by (subst map_of_inject_set) (simp_all add: distinct_map)
  then show ?thesis using assms by (simp add: dict_row_def)
qed

lemma distinct_roster_header: "distinct roster_header"
  by (simp add: roster_header_def)

lemma length_roster_header: "length roster_header = 30"
  by (simp add: roster_header_def)

lemma roster_row_eq:
  "roster_row t n p r = map_of (zip roster_header (map Some (roster_record t n p r)))"
  unfolding roster_row_def
  by (rule dict_row_distinct [OF distinct_roster_header])
    (simp add: length_roster_header roster_record_def)

lemmas py_int_eval = py_int_def code_points_def strip_def is_space_def parse_unsigned_def
  is_digit_def digit_value_def digit_zero_def digit_zeros_def max_str_digits_def is_cont_def

text \<open>Some values of \<^verbatim>\<open>int\<close> outside ASCII: a no-break space (U+00A0, encoded C2 A0) and
  a next-line character (U+0085) are stripped, the fullwidth digits U+FF17 U+FF10 read 70,
  an Arabic-Indic three (U+0663) reads 3, an ideographic space (U+3000) is stripped at
  both ends, and a mathematical bold zero (U+1D7CE) reads 0; a zero-width space (U+200B)
  and the information separator U+001C are not whitespace, and a letter is not a digit.\<close>

lemma py_int_nbsp: "py_int [CHR 0xC2, CHR 0xA0, CHR 0x37, CHR 0x30] = Some 70"
  and py_int_nel: "py_int [CHR 0xC2, CHR 0x85, CHR 0x37, CHR 0x30] = Some 70"
  and py_int_fullwidth: "py_int [CHR 0xEF, CHR 0xBC, CHR 0x97, CHR 0xEF, CHR 0xBC, CHR 0x90] = Some 70"
  and py_int_arabic: "py_int [CHR 0xD9, CHR 0xA3] = Some 3"
  and py_int_ideographic:
    "py_int [CHR 0xE3, CHR 0x80, CHR 0x80, CHR 0x37, CHR 0xE3, CHR 0x80, CHR 0x80] = Some 7"
  and py_int_bold_zero: "py_int [CHR 0xF0, CHR 0x9D, CHR 0x9F, CHR 0x8E] = Some 0"
  and py_int_zwsp: "py_int [CHR 0xE2, CHR 0x80, CHR 0x8B, CHR 0x37] = None"
  and py_int_fs: "py_int [CHR 0x1C, CHR 0x35] = None"
  and py_int_letter: "py_int [CHR 0xC3, CHR 0xA9, CHR 0x37] = None"
  by (simp_all add: py_int_eval)

text \<open>The same two spaces given as single characters (not UTF-8) are stripped as well.\<close>

lemma py_int_nbsp_char: "py_int [CHR 0xA0, CHR 0x37, CHR 0x30] = Some 70"
  and py_int_nel_char: "py_int [CHR 0x85, CHR 0x37, CHR 0x30] = Some 70"
  by (simp_all add: py_int_eval)

text \<open>Signs and underscores.\<close>

lemma py_int_signed: "py_int '' +4_2 '' = Some 42"
  and py_int_minus: "py_int ''-7'' = Some (- 7)"
  and py_int_double_underscore: "py_int ''4__2'' = None"
  and py_int_sign_space: "py_int ''+ 7'' = None"
  and py_int_empty: "py_int [] = None"
  by (simp_all add: py_int_eval)

lemma py_int_70: "py_int ''70'' = Some 70"
  and py_int_71: "py_int ''71'' = Some 71"
  and py_int_80: "py_int ''80'' = Some 80"
  and py_int_85: "py_int ''85'' = Some 85"
  by (simp_all add: py_int_eval)

lemma floor_211_3: "math_floor_truediv 211 3 = Inr 70"
  using math_floor_truediv_3 [of 211] by simp

lemma floor_485_6: "math_floor_truediv 485 6 = Inr 80"
  using math_floor_truediv_6 [of 485] by simp

lemma py_str_70: "py_str 70 = ''70''" and py_str_80: "py_str 80 = ''80''"
  by (simp_all add: py_str_def str_nat.simps digit_char_def)

lemma roster_row_ints:
  "int_item (roster_row t n p r) ''passAccuracy'' = Inr 70"
  "int_item (roster_row t n p r) ''passIQ'' = Inr 70"
  "int_item (roster_row t n p r) ''passVision'' = Inr 71"
  "int_item (roster_row t n p r) ''speed'' = Inr 80"
  "int_item (roster_row t n p r) ''agility'' = Inr 80"
  "int_item (roster_row t n p r) ''strength'' = Inr 80"
  "int_item (roster_row t n p r) ''vertical'' = Inr 80"
  "int_item (roster_row t n p r) ''stamina'' = Inr 80"
  "int_item (roster_row t n p r) ''hustle'' = Inr 85"
  by (simp_all add: int_item_def getitem_def roster_row_eq roster_header_def roster_record_def
      int_of_val_def py_int_70 py_int_71 py_int_80 py_int_85)

lemma roster_row_display:
  "dict_display (processed_items (roster_row t n p r) 70 80) = Inr (roster_player n p r)"
proof -
  have "eval_items (processed_items (roster_row t n p r) 70 80) =
        Inr [(''name'', Some n), (''englishName'', Some n), (''position'', Some p),
        (''playerType'', Some []), (''rotationType'', Some []), (''rating'', Some r),
        (''insideRating'', Some ''60''), (''midRating'', Some ''61''),
        (''threeRating'', Some ''62''), (''freeThrowPercent'', Some ''63''),
        (''interiorDefense'', Some ''64''), (''perimeterDefense'', Some ''65''),
        (''orbRating'', Some ''66''), (''drbRating'', Some ''67''),
        (''astRating'', Some ''70''), (''stlRating'', Some ''68''), (''blkRating'', Some ''69''),
        (''layupRating'', Some ''72''), (''standDunk'', Some ''73''),
        (''drivingDunk'', Some ''74''), (''athleticism'', Some ''80''),
        (''durability'', Some ''75''), (''offConst'', Some ''76''), (''defConst'', Some ''77''),
        (''drawFoul'', Some ''78'')]" (is "_ = Inr ?kvs")
    by (simp add: processed_items_def getitem_def roster_row_eq roster_header_def
        roster_record_def py_str_70 py_str_80)
  moreover have "map_of (rev ?kvs) = map_of ?kvs"
    by (rule map_of_rev_distinct) simp
  ultimately show ?thesis
    by (simp add: dict_display_def roster_player_def)
qed

lemma process_player_roster_row:
  "process_player (roster_row t n p r) = Inr (roster_player n p r)"
  by (simp add: process_player_def roster_row_ints floor_211_3 floor_485_6 roster_row_display)

lemma roster_row_name: "roster_row t n p r ''name'' = Some (Some n)"
  and roster_row_team: "roster_row t n p r ''team'' = Some (Some t)"
  by (simp_all add: roster_row_eq roster_header_def roster_record_def)

lemma preserve_rating_fields: "\<forall>f \<in> set rating_fields. preserve ex fresh f = fresh f"
  by (simp add: rating_fields_def fieldnames_def preserve_def)

lemma preserve_protected:
  "preserve ex fresh ''name'' = Some (ex_name ex)"
  "preserve ex fresh ''englishName'' = Some (ex_englishName ex)"
  "preserve ex fresh ''position'' = Some (ex_position ex)"
  "preserve ex fresh ''playerType'' = Some (ex_playerType ex)"
  "preserve ex fresh ''rotationType'' = Some (ex_rotationType ex)"
  by (simp_all add: preserve_def)

lemma preserve_copied:
  assumes "(out, s) \<in> set copied_fields"
  shows "preserve ex fresh out = fresh out"
proof -
  have "list_all (\<lambda>(out, s). preserve ex fresh out = fresh out) copied_fields"
    by (simp add: copied_fields_def preserve_def)
  with assms show ?thesis by (auto simp: list_all_iff)
qed

lemma DictReader_duplicate_file:
  "DictReader duplicate_file =
     [dict_row (hd duplicate_file) [''Johnny'', ''John Doe'', ''PG'', ''Starter'', ''First''],
      dict_row (hd duplicate_file) [''Jack'', ''Jack Roe'', ''C'', ''Center'', ''First'']]
     @ dict_row (hd duplicate_file) [''John'', ''John Doe'', ''SG'', ''Reserve'', ''Second''] # []"
  by (simp add: DictReader_def duplicate_file_def)

lemma duplicate_file_last:
  "english_name_key
     (dict_row (hd duplicate_file) [''John'', ''John Doe'', ''SG'', ''Reserve'', ''Second''])
   = Some ''John Doe''"
  "existing_of_row
     (dict_row (hd duplicate_file) [''John'', ''John Doe'', ''SG'', ''Reserve'', ''Second''])
   = \<lparr>ex_name = Some ''John'', ex_englishName = Some ''John Doe'', ex_position = Some ''SG'',
      ex_playerType = Some ''Reserve'', ex_rotationType = Some ''Second''\<rparr>"
  by (simp_all add: english_name_key_def existing_of_row_def dict_get_def dict_row_def
      duplicate_file_def)

lemma merge_players_Inr:
  "merge_players ex rows = Inr ps \<longleftrightarrow> list_all2 (\<lambda>r p. merge_player ex r = Inr p) rows ps"
proof (induction rows arbitrary: ps)
  case Nil
  then show ?case by auto
next
  case (Cons r rows)
  show ?case
    by (cases ps) (auto simp: bindE_eq_Inr Cons.IH)
qed

lemma rating_keys_Inr:
  "rating_keys xs = Inr ks \<longleftrightarrow> list_all2 (\<lambda>x k. rating_key x = Inr k) xs ks"
proof (induction xs arbitrary: ks)
  case Nil
  then show ?case by auto
next
  case (Cons x xs)
  show ?case
    by (cases ks) (auto simp: bindE_eq_Inr Cons.IH)
qed

lemma merge_player_rating:
  assumes "merge_player ex r = Inr p"
  shows "p ''rating'' = r ''overallAttribute''"
proof -
  from assms obtain fresh where fresh: "process_player r = Inr fresh"
    by (rule merge_player_Inr)
  then obtain a b where disp: "dict_display (processed_items r a b) = Inr fresh"
    by (rule process_player_Inr)
  have "fresh ''rating'' = r ''overallAttribute''"
    by (rule processed_copied [OF disp]) (simp add: copied_fields_def)
  moreover from assms fresh have "p = fresh \<or> (\<exists>e. p = preserve e fresh)"
    by (auto simp: merge_player_def bindE_eq_Inr split: option.splits)
  ultimately show ?thesis by (auto simp: preserve_def)
qed

lemma merge_player_numeric:
  assumes "merge_player ex r = Inr p" and "k \<in> set numeric_fields"
  shows "\<exists>i. int_item r k = Inr i"
proof -
  from assms(1) obtain fresh where "process_player r = Inr fresh"
    by (rule merge_player_Inr)
  then show ?thesis
    using assms(2) by (elim process_player_Inr) (auto simp: numeric_fields_def)
qed

lemma rating_key_int_item: "rating_key x = int_item x ''rating''"
  by (simp add: rating_key_def int_item_def)

lemma int_item_cong: "d k = d' k' \<Longrightarrow> (int_item d k = Inr i) = (int_item d' k' = Inr i)"
  by (simp add: int_item_def getitem_def split: option.splits)

lemma bad_row_fails:
  assumes "r \<in> set players" and "k \<in> set (''overallAttribute'' # numeric_fields)"
    and "\<forall>i. int_item r k \<noteq> Inr i"
    and "merge_players ex players = Inr pre"
  shows "\<exists>e. sort_by_rating pre = Inl e"
proof -
  from assms(4) have all: "list_all2 (\<lambda>r p. merge_player ex r = Inr p) players pre"
    by (simp add: merge_players_Inr)
  from assms(1) obtain n where n: "n < length players" "players ! n = r"
    by (auto simp: in_set_conv_nth)
  with all have "pre ! n \<in> set pre" "merge_player ex r = Inr (pre ! n)"
    by (auto simp: list_all2_conv_all_nth)
  then obtain p where p: "p \<in> set pre" "merge_player ex r = Inr p" by blast
  from merge_player_numeric [OF p(2)] assms(2,3) have k: "k = ''overallAttribute''"
    by auto
  have "(rating_key p = Inr i) = (int_item r ''overallAttribute'' = Inr i)" for i
    unfolding rating_key_int_item by (rule int_item_cong) (rule merge_player_rating [OF p(2)])
  with assms(3) k have bad: "\<forall>i. rating_key p \<noteq> Inr i" by simp
  have "\<not> (\<exists>ks. rating_keys pre = Inr ks)"
  proof
    assume "\<exists>ks. rating_keys pre = Inr ks"
    then obtain ks where "list_all2 (\<lambda>x k. rating_key x = Inr k) pre ks"
      by (auto simp: rating_keys_Inr)
    moreover from p(1) obtain m where "m < length pre" "pre ! m = p"
      by (auto simp: in_set_conv_nth)
    ultimately have "\<exists>i. rating_key p = Inr i"
      by (auto simp: list_all2_conv_all_nth)
    with bad show False by simp
  qed
  then obtain e where "rating_keys pre = Inl e"
    by (cases "rating_keys pre") auto
  then show ?thesis by (simp add: sort_by_rating_def)
qed

lemma process_team_unmapped:
  assumes "team_code t = None"
  shows "process_team d t ps w =
           (None, print (''Warning: No mapping found for team '' @ [CHR 0x27] @ py_format t
                         @ [CHR 0x27]) w)"
  using assms by (simp add: process_team_def)

lemma process_team_error_files:
  assumes "process_team d t ps w = (Some e, w')"
  shows "files w' = files w"
  using assms
  by (auto simp: process_team_def Let_def print_def split: option.splits sum.splits)

lemma process_team_bad_row:
  assumes "team_code t = Some code" and "r \<in> set ps"
    and "k \<in> set (''overallAttribute'' # numeric_fields)" and "\<forall>i. int_item r k \<noteq> Inr i"
  shows "\<exists>e w'. process_team d t ps w = (Some e, w')"
proof (cases "merge_players (read_existing_team_data (files w) (os_path_join d (code @ ''.csv''))) ps")
  case (Inl e)
  with assms(1) show ?thesis by (simp add: process_team_def Let_def)
next
  case (Inr pre)
  from bad_row_fails [OF assms(2,3,4) Inr] obtain e where "sort_by_rating pre = Inl e" ..
  with Inr assms(1) show ?thesis by (simp add: process_team_def Let_def)
qed

lemma process_team_stdout:
  assumes "files w1 = files w2"
  shows "fst (process_team d t ps w1) = fst (process_team d t ps w2)
       \<and> files (snd (process_team d t ps w1)) = files (snd (process_team d t ps w2))"
  using assms
  by (auto simp: process_team_def Let_def print_def write_csv_def split: option.splits sum.splits)

lemma process_teams_stdout:
  assumes "files w1 = files w2"
  shows "fst (process_teams d gs w1) = fst (process_teams d gs w2)
       \<and> files (snd (process_teams d gs w1)) = files (snd (process_teams d gs w2))"
  using assms
proof (induction gs arbitrary: w1 w2)
  case Nil
  then show ?case by simp
next
  case (Cons g gs)
  obtain t ps where g: "g = (t, ps)" by (cases g)
  obtain e1 v1 where r1: "process_team d t ps w1 = (e1, v1)" by (cases "process_team d t ps w1")
  obtain e2 v2 where r2: "process_team d t ps w2 = (e2, v2)" by (cases "process_team d t ps w2")
  from process_team_stdout [OF Cons.prems, of d t ps] r1 r2
  have eq: "e1 = e2" "files v1 = files v2" by simp_all
  show ?case
  proof (cases e1)
    case None
    with eq r1 r2 Cons.IH [OF eq(2)] show ?thesis by (simp add: g)
  next
    case (Some e)
    with eq r1 r2 show ?thesis by (auto simp: g)
  qed
qed


lemma process_teams_error:
  assumes "process_teams d gs w = (Some e, w')"
  shows "\<exists>gs1 t ps gs2 w1. gs = gs1 @ (t, ps) # gs2 \<and> process_teams d gs1 w = (None, w1)
           \<and> process_team d t ps w1 = (Some e, w')"
  using assms
proof (induction gs arbitrary: w)
  case Nil
  then show ?case by simp
next
  case (Cons g gs)
  obtain t ps where g: "g = (t, ps)" by (cases g)
  obtain e1 v1 where r1: "process_team d t ps w = (e1, v1)" by (cases "process_team d t ps w")
  show ?case
  proof (cases e1)
    case None
    with Cons.prems r1 have "process_teams d gs v1 = (Some e, w')" by (simp add: g)
    from Cons.IH [OF this] obtain gs1 t' ps' gs2 w1 where
      *: "gs = gs1 @ (t', ps') # gs2" "process_teams d gs1 v1 = (None, w1)"
         "process_team d t' ps' w1 = (Some e, w')" by blast
    have "g # gs = (g # gs1) @ (t', ps') # gs2" using *(1) by simp
    moreover have "process_teams d (g # gs1) w = (None, w1)"
      using r1 None *(2) by (simp add: g)
    ultimately show ?thesis using *(3) by blast
  next
    case (Some e')
    with Cons.prems r1 have "e' = e" "v1 = w'" by (simp_all add: g)
    with r1 Some have "process_team d t ps w = (Some e, w')" by simp
    moreover have "g # gs = [] @ (t, ps) # gs" by (simp add: g)
    moreover have "process_teams d [] w = (None, w)" by simp
    ultimately show ?thesis by blast
  qed
qed

lemma process_teams_bad_row:
  assumes "(t, ps) \<in> set gs" and "team_code t = Some code" and "r \<in> set ps"
    and "k \<in> set (''overallAttribute'' # numeric_fields)" and "\<forall>i. int_item r k \<noteq> Inr i"
  shows "\<exists>e w'. process_teams d gs w = (Some e, w')"
  using assms(1)
proof (induction gs arbitrary: w)
  case Nil
  then show ?case by simp
next
  case (Cons g gs)
  obtain t' ps' where g: "g = (t', ps')" by (cases g)
  obtain e1 v1 where r1: "process_team d t' ps' w = (e1, v1)" by (cases "process_team d t' ps' w")
  show ?case
  proof (cases e1)
    case (Some e')
    with r1 show ?thesis by (simp add: g)
  next
    case None
    have "g \<noteq> (t, ps)"
    proof
      assume "g = (t, ps)"
      with process_team_bad_row [OF assms(2,3,4,5), of d w] r1 None g show False by simp
    qed
    with Cons.prems have "(t, ps) \<in> set gs" by simp
    from Cons.IH [OF this, of v1] r1 None show ?thesis by (simp add: g)
  qed
qed

lemma add_player_keeps:
  assumes "(t, ps) \<in> set acc"
  shows "\<exists>ps'. (t, ps') \<in> set (add_player team row acc) \<and> set ps \<subseteq> set ps'"
  using assms
proof (induction acc)
  case Nil
  then show ?case by simp
next
  case (Cons g acc)
  obtain t' ps' where g: "g = (t', ps')" by (cases g)
  show ?case
  proof (cases "(t, ps) = g")
    case True
    then show ?thesis by (cases "t' = team") (auto simp: g)
  next
    case False
    with Cons.prems have mem: "(t, ps) \<in> set acc" by simp
    show ?thesis
    proof (cases "t' = team")
      case True
      with mem show ?thesis by (auto simp: g)
    next
      case False
      with Cons.IH [OF mem] show ?thesis by (auto simp: g)
    qed
  qed
qed

lemma add_player_adds:
  "\<exists>ps. (team, ps) \<in> set (add_player team row acc) \<and> row \<in> set ps"
proof (induction acc)
  case Nil
  then show ?case by simp
next
  case (Cons g acc)
  obtain t' ps' where g: "g = (t', ps')" by (cases g)
  from Cons.IH show ?case by (cases "t' = team") (auto simp: g)
qed

lemma group_by_team_members:
  assumes "group_by_team rows acc = Inr groups"
  shows "(\<forall>(t, ps) \<in> set acc. \<exists>ps'. (t, ps') \<in> set groups \<and> set ps \<subseteq> set ps')
       \<and> (\<forall>r \<in> set rows. \<exists>team ps. r ''team'' = Some team \<and> (team, ps) \<in> set groups
              \<and> r \<in> set ps)"
  using assms
proof (induction rows arbitrary: acc)
  case Nil
  then show ?case by auto
next
  case (Cons row rows)
  from Cons.prems obtain team where team: "row ''team'' = Some team"
    and rest: "group_by_team rows (add_player team row acc) = Inr groups"
    by (auto simp: bindE_eq_Inr)
  note IH = Cons.IH [OF rest]
  have keep: "\<exists>ps'. (t, ps') \<in> set groups \<and> set ps \<subseteq> set ps'" if "(t, ps) \<in> set acc" for t ps
  proof -
    from add_player_keeps [OF that, of team row] obtain ps1
      where "(t, ps1) \<in> set (add_player team row acc)" "set ps \<subseteq> set ps1" by blast
    with IH show ?thesis by fastforce
  qed
  have "\<exists>ps. (team, ps) \<in> set groups \<and> row \<in> set ps"
  proof -
    from add_player_adds [of team row acc] obtain ps1
      where "(team, ps1) \<in> set (add_player team row acc)" "row \<in> set ps1" by blast
    with IH show ?thesis by fastforce
  qed
  with team keep IH show ?case by auto
qed


lemma team_code_hawks: "team_code (Some ''Atlanta Hawks'') = Some ''Hawks''"
  by (simp add: team_code_def TEAM_MAPPING_def)

lemma malformed_roster_rows:
  "DictReader malformed_roster = [roster_row ''Atlanta Hawks'' ''John Doe'' ''PG'' ''abc'']"
  by (simp add: DictReader_def malformed_roster_def roster_row_def roster_record_def)

lemma py_int_abc: "py_int ''abc'' = None"
  by (simp add: py_int_eval)

lemma malformed_rating:
  "\<forall>i. int_item (roster_row ''Atlanta Hawks'' ''John Doe'' ''PG'' ''abc'') ''overallAttribute''
        \<noteq> Inr i"
  by (simp add: int_item_def getitem_def roster_row_eq roster_header_def roster_record_def
      int_of_val_def py_int_abc)

lemma insort_key_decorated:
  "insort_key (\<lambda>p. h (fst p)) (g x, x) (map (\<lambda>x. (g x, x)) zs) =
     map (\<lambda>x. (g x, x)) (insort_key (\<lambda>x. h (g x)) x zs)"
  by (induction zs) simp_all

lemma sort_key_decorated:
  "sort_key (\<lambda>p. h (fst p)) (map (\<lambda>x. (g x, x)) xs) =
     map (\<lambda>x. (g x, x)) (sort_key (\<lambda>x. h (g x)) xs)"
  by (induction xs) (simp_all add: insort_key_decorated)

lemma rating_keys_map:
  assumes "rating_keys xs = Inr ks"
  shows "zip ks xs = map (\<lambda>x. (projr (rating_key x), x)) xs"
    and "\<forall>x \<in> set xs. rating_key x = Inr (projr (rating_key x))"
proof -
  from assms have all: "list_all2 (\<lambda>x k. rating_key x = Inr k) xs ks"
    by (simp add: rating_keys_Inr)
  then show "zip ks xs = map (\<lambda>x. (projr (rating_key x), x)) xs"
    by (induction xs ks rule: list_all2_induct) simp_all
  from all show "\<forall>x \<in> set xs. rating_key x = Inr (projr (rating_key x))"
    by (induction xs ks rule: list_all2_induct) simp_all
qed

lemma sort_by_rating_Inr:
  assumes "sort_by_rating xs = Inr out"
  shows "out = sort_key (\<lambda>x. - projr (rating_key x)) xs"
    and "\<forall>x \<in> set xs. rating_key x = Inr (projr (rating_key x))"
proof -
  from assms obtain ks where ks: "rating_keys xs = Inr ks"
    and out: "out = map snd (sort_key (\<lambda>p. - fst p) (zip ks xs))"
    by (auto simp: sort_by_rating_def bindE_eq_Inr)
  show "out = sort_key (\<lambda>x. - projr (rating_key x)) xs"
    unfolding out rating_keys_map(1) [OF ks]
    by (simp add: sort_key_decorated [where h = uminus] comp_def)
  show "\<forall>x \<in> set xs. rating_key x = Inr (projr (rating_key x))"
    by (rule rating_keys_map(2) [OF ks])
qed

lemma sort_by_rating_sorted:
  assumes "sort_by_rating xs = Inr out"
  shows "sorted_wrt (\<lambda>a b. \<exists>i j. rating_key a = Inr i \<and> rating_key b = Inr j \<and> j \<le> i) out"
    and "mset out = mset xs"
    and "filter (\<lambda>x. rating_key x = Inr k) out = filter (\<lambda>x. rating_key x = Inr k) xs"
proof -
  let ?g = "\<lambda>x. projr (rating_key x)"
  note out = sort_by_rating_Inr(1) [OF assms]
  note keys = sort_by_rating_Inr(2) [OF assms]
  show m: "mset out = mset xs" by (simp add: out)
  then have set: "set out = set xs" by (metis set_mset_mset)
  have "sorted (map (\<lambda>x. - ?g x) out)"
    unfolding out by (rule sorted_sort_key)
  then have "sorted_wrt (\<lambda>a b. ?g b \<le> ?g a) out"
    by (simp add: sorted_map sorted_wrt_iff_nth_less)
  then show "sorted_wrt (\<lambda>a b. \<exists>i j. rating_key a = Inr i \<and> rating_key b = Inr j \<and> j \<le> i) out"
  proof (rule sorted_wrt_mono_rel [rotated])
    fix a b assume "a \<in> set out" "b \<in> set out" "?g b \<le> ?g a"
    with keys set show "\<exists>i j. rating_key a = Inr i \<and> rating_key b = Inr j \<and> j \<le> i"
      by blast
  qed
  have "filter (\<lambda>x. rating_key x = Inr k) ys = filter (\<lambda>x. - ?g x = - k) ys"
    if "set ys = set xs" for ys
  proof (rule filter_cong [OF refl])
    fix x assume "x \<in> set ys"
    with that keys have "rating_key x = Inr (?g x)" by blast
    then show "(rating_key x = Inr k) = (- ?g x = - k)"
      by (cases "rating_key x") auto
  qed
  from this [OF set] this [OF refl]
  show "filter (\<lambda>x. rating_key x = Inr k) out = filter (\<lambda>x. rating_key x = Inr k) xs"
    unfolding out by (simp only: sort_key_stable)
qed

lemma process_team_ok:
  assumes "process_team d team players w = (None, w')" and "team_code team = Some code"
  shows "\<exists>pre out.
           merge_players (read_existing_team_data (files w) (os_path_join d (code @ ''.csv'')))
             players = Inr pre
           \<and> sort_by_rating pre = Inr out
           \<and> files w' = (files w)(os_path_join d (code @ ''.csv'') \<mapsto>
                 fieldnames # map (dict_to_list fieldnames) out)"
  using assms
  by (auto simp: process_team_def Let_def print_def write_csv_def split: sum.splits)

lemma rating_cell:
  assumes "rating_key x = Inr i"
  shows "py_int (dict_to_list fieldnames x ! 5) = Some i"
proof -
  from assms obtain s where "x ''rating'' = Some (Some s)" "py_int s = Some i"
    by (auto simp: rating_key_def bindE_eq_Inr int_of_val_def split: option.splits)
  then show ?thesis
    by (simp add: dict_to_list_def fieldnames_def csv_cell_def)
qed

lemma py_int_9: "py_int ''9'' = Some 9" and py_int_10: "py_int ''10'' = Some 10"
  by (simp_all add: py_int_eval)

lemma rating_key_roster_player: "rating_key (roster_player n p r) = int_of_val (Some r)"
  by (simp add: rating_key_def getitem_def roster_player_def)

lemma merge_players_two_hawks:
  "merge_players Map.empty two_hawks =
     Inr [roster_player ''Al Nine'' ''PG'' ''9'', roster_player ''Bo Ten'' ''SG'' ''10'']"
  by (simp add: two_hawks_def merge_players_Inr
      merge_player_unmatched [where existing = Map.empty, OF process_player_roster_row])

lemma sort_two_hawks:
  "sort_by_rating [roster_player ''Al Nine'' ''PG'' ''9'', roster_player ''Bo Ten'' ''SG'' ''10'']
   = Inr [roster_player ''Bo Ten'' ''SG'' ''10'', roster_player ''Al Nine'' ''PG'' ''9'']"
  by (simp add: sort_by_rating_def rating_key_roster_player int_of_val_def py_int_9 py_int_10)

lemma os_path_join_hawks:
  "os_path_join output_dir ''Hawks.csv'' = ''public/data/rosters/Hawks.csv''"
  by (simp add: os_path_join_def output_dir_def)

lemma process_team_two_hawks:
  "\<exists>w'. process_team output_dir (Some ''Atlanta Hawks'') two_hawks empty_world = (None, w')
     \<and> files w' = [''public/data/rosters/Hawks.csv'' \<mapsto>
          fieldnames # map (dict_to_list fieldnames)
            [roster_player ''Bo Ten'' ''SG'' ''10'', roster_player ''Al Nine'' ''PG'' ''9'']]"
  by (simp add: process_team_def Let_def team_code_hawks os_path_join_hawks empty_world_def
      read_existing_team_data_def merge_players_two_hawks sort_two_hawks print_def write_csv_def)

lemma rating_cell_eq: "dict_to_list fieldnames x ! 5 = csv_cell x ''rating''"
  by (simp add: dict_to_list_def fieldnames_def)

lemma rating_cell_roster_player: "dict_to_list fieldnames (roster_player n p r) ! 5 = r"
  by (simp add: rating_cell_eq csv_cell_def roster_player_def)

lemma dict_display_total:
  assumes "\<forall>(k, e) \<in> set items. \<exists>v. e = Inr v"
  shows "dict_display items = Inr (map_of (rev (map (\<lambda>(k, e). (k, projr e)) items)))"
proof -
  from assms have "eval_items items = Inr (map (\<lambda>(k, e). (k, projr e)) items)"
    by (induction items) auto
  then show ?thesis by (simp add: dict_display_def)
qed

lemma processed_items_total:
  assumes "\<forall>k \<in> set roster_header. row k \<noteq> None"
  shows "\<forall>(k, e) \<in> set (processed_items row a b). \<exists>v. e = Inr v"
proof -
  have "\<exists>v. getitem row k = Inr v" if "k \<in> set roster_header" for k
    using assms that by (auto simp: getitem_def split: option.splits)
  then show ?thesis
    by (simp add: processed_items_def roster_header_def)
qed

lemma process_player_complete:
  assumes "\<forall>k \<in> set roster_header. row k \<noteq> None"
    and "int_item row ''passAccuracy'' = Inr pa" "int_item row ''passIQ'' = Inr pq"
    "int_item row ''passVision'' = Inr pv"
    "math_floor_truediv (pa + pq + pv) 3 = Inr a"
    "int_item row ''speed'' = Inr sp" "int_item row ''agility'' = Inr ag"
    "int_item row ''strength'' = Inr st" "int_item row ''vertical'' = Inr ve"
    "int_item row ''stamina'' = Inr sm" "int_item row ''hustle'' = Inr hu"
    "math_floor_truediv (sp + ag + st + ve + sm + hu) 6 = Inr b"
  shows "process_player row = Inr (map_of (fresh_values row a b))"
proof -
  have d: "dict_display (processed_items row a b)
           = Inr (map_of (rev (map (\<lambda>(k, e). (k, projr e)) (processed_items row a b))))"
    by (rule dict_display_total) (rule processed_items_total [OF assms(1)])
  from processed_row [OF d] d
  have "dict_display (processed_items row a b) = Inr (map_of (fresh_values row a b))"
    by simp
  with assms(2-) show ?thesis by (simp add: process_player_def)
qed

lemma py_int_big: "py_int ''13510798882111490'' = Some 13510798882111490"
  and py_int_0: "py_int ''0'' = Some 0"
  by (simp_all add: py_int_eval)

lemma rounding_row_eq:
  "rounding_row = map_of (zip roster_header (map Some
       [''Atlanta Hawks'', ''John Doe'', ''PG'', ''85'', ''60'', ''61'',
        ''62'', ''63'', ''64'', ''65'',
        ''66'', ''67'', ''13510798882111490'', ''0'', ''0'',
        ''68'', ''69'', ''72'', ''73'', ''74'', ''80'', ''80'',
        ''80'', ''80'', ''80'', ''85'', ''75'',
        ''76'', ''77'', ''78'']))"
  unfolding rounding_row_def
  by (rule dict_row_distinct [OF distinct_roster_header]) (simp add: length_roster_header)

lemma rounding_row_ints:
  "int_item rounding_row ''passAccuracy'' = Inr 13510798882111490"
  "int_item rounding_row ''passIQ'' = Inr 0"
  "int_item rounding_row ''passVision'' = Inr 0"
  "int_item rounding_row ''speed'' = Inr 80"
  "int_item rounding_row ''agility'' = Inr 80"
  "int_item rounding_row ''strength'' = Inr 80"
  "int_item rounding_row ''vertical'' = Inr 80"
  "int_item rounding_row ''stamina'' = Inr 80"
  "int_item rounding_row ''hustle'' = Inr 85"
  by (simp_all add: int_item_def getitem_def rounding_row_eq roster_header_def
      int_of_val_def py_int_big py_int_0 py_int_80 py_int_85)

lemma rounding_row_complete: "\<forall>k \<in> set roster_header. rounding_row k \<noteq> None"
proof -
  have "dom rounding_row = set roster_header"
    unfolding rounding_row_eq by (rule dom_map_of_zip) (simp add: length_roster_header)
  then show ?thesis by blast
qed

lemma ilog2_less:
  assumes "0 < x"
  shows "x < 2 powi (ilog2 x + 1)"
proof -
  obtain n d where q: "quotient_of x = (n, d)" by (cases "quotient_of x")
  then have d: "0 < d" and x: "x = of_int n / of_int d"
    by (simp_all add: quotient_of_denom_pos quotient_of_div)
  from assms d x have n: "0 < n" by (simp add: zero_less_divide_iff)
  let ?a = "bit_length (nat n)" and ?b = "bit_length (nat d)"
  from n have "nat n < 2 ^ ?a" using bit_length_bounds [of "nat n"] by simp
  then have hi: "(of_int n :: rat) < 2 ^ ?a"
    using n by (metis of_nat_less_iff of_nat_numeral of_nat_power less_imp_le of_nat_nat)
  from d have "2 ^ (?b - 1) \<le> nat d" using bit_length_bounds [of "nat d"] by simp
  then have lo: "(2::rat) ^ (?b - 1) \<le> of_int d"
    using d by (metis of_nat_le_iff of_nat_numeral of_nat_power less_imp_le of_nat_nat)
  from d have bpos: "0 < ?b" by (subst bit_length.simps) simp
  have "of_int n / of_int d < (2::rat) ^ ?a / 2 ^ (?b - 1)"
    using lo hi d n by (intro frac_less) simp_all
  also have "\<dots> = 2 powi (int ?a - int (?b - 1))"
    by (simp add: power_int_diff)
  also from bpos have "int ?a - int (?b - 1) = int ?a - int ?b + 1" by linarith
  finally have up: "x < 2 powi (int ?a - int ?b + 1)" by (simp add: x)
  show ?thesis
    using up by (auto simp: ilog2_def q Let_def not_le)
qed

lemma two_powi_less_imp:
  assumes "(2::rat) powi m < 2 powi n"
  shows "m < n"
proof (rule ccontr)
  assume "\<not> m < n"
  then have "n \<le> m" by simp
  then have "(2::rat) powi n \<le> 2 powi m" by (intro power_int_increasing) simp_all
  with assms show False by simp
qed

lemma ilog2_eq:
  assumes "2 powi e \<le> x" and "x < 2 powi (e + 1)"
  shows "ilog2 x = e"
proof -
  have "(0::rat) < 2 powi e" by simp
  with assms(1) have pos: "0 < x" by linarith
  from ilog2_le [OF pos] assms(2) have "(2::rat) powi ilog2 x < 2 powi (e + 1)" by linarith
  then have "ilog2 x < e + 1" by (rule two_powi_less_imp)
  moreover from ilog2_less [OF pos] assms(1) have "(2::rat) powi e < 2 powi (ilog2 x + 1)"
    by linarith
  then have "e < ilog2 x + 1" by (rule two_powi_less_imp)
  ultimately show ?thesis by linarith
qed

lemma py_str_rounded: "py_str 4503599627370497 = ''4503599627370497''"
  and py_str_floor: "py_str 4503599627370496 = ''4503599627370496''"
  by (simp_all add: py_str_def str_nat.simps digit_char_def)

lemma floor_big: "\<lfloor>(13510798882111490 :: rat) / 3\<rfloor> = 4503599627370496"
  using floor_divide_of_int_eq [of 13510798882111490 3, where ?'a = rat] by simp

lemma floor_211: "\<lfloor>(211 :: rat) / 3\<rfloor> = 70"
  using floor_divide_of_int_eq [of 211 3, where ?'a = rat] by simp

lemma floor_485: "\<lfloor>(485 :: rat) / 6\<rfloor> = 80"
  using floor_divide_of_int_eq [of 485 6, where ?'a = rat] by simp

lemma floor_rounds_up: "math_floor_truediv (13510798882111490 + 0 + 0) 3 = Inr 4503599627370497"
proof -
  have e: "ilog2 (13510798882111490 / 3) = 52"
    by (rule ilog2_eq) simp_all
  have "round_to_double (13510798882111490 / 3) = Some 4503599627370497"
    by (simp add: round_to_double_def e round_half_even_def Let_def floor_big)
  then show ?thesis
    by (simp add: math_floor_truediv_def int_truediv_def)
qed

lemma reread_apply:
  "reread x k = (if k \<in> set fieldnames then Some (Some (csv_cell x k)) else None)"
proof -
  have "dict_row fieldnames (dict_to_list fieldnames x)
        = map_of (zip fieldnames (map Some (dict_to_list fieldnames x)))"
    by (rule dict_row_distinct [OF distinct_fieldnames]) (simp add: dict_to_list_def)
  also have "\<dots> = map_of (zip fieldnames (map (\<lambda>k. Some (csv_cell x k)) fieldnames))"
    by (simp add: dict_to_list_def comp_def)
  finally show ?thesis
    by (simp add: reread_def map_of_zip_map)
qed

lemma protected_in_fieldnames:
  "''name'' \<in> set fieldnames" "''englishName'' \<in> set fieldnames"
  "''position'' \<in> set fieldnames" "''playerType'' \<in> set fieldnames"
  "''rotationType'' \<in> set fieldnames"
  by (simp_all add: fieldnames_def)

lemma english_name_key_reread: "english_name_key (reread x) = Some (csv_cell x ''englishName'')"
  by (simp add: english_name_key_def dict_get_def reread_apply protected_in_fieldnames)

lemma existing_of_row_reread:
  "existing_of_row (reread x) =
     \<lparr>ex_name = Some (csv_cell x ''name''), ex_englishName = Some (csv_cell x ''englishName''),
      ex_position = Some (csv_cell x ''position''),
      ex_playerType = Some (csv_cell x ''playerType''),
      ex_rotationType = Some (csv_cell x ''rotationType'')\<rparr>"
  by (simp add: existing_of_row_def dict_get_def reread_apply protected_in_fieldnames)

lemma DictReader_written:
  "DictReader (fieldnames # map (dict_to_list fieldnames) out) = map reread out"
proof -
  have "dict_to_list fieldnames x \<noteq> []" for x
    by (simp add: dict_to_list_def fieldnames_def)
  then have "filter (\<lambda>r. r \<noteq> []) (map (dict_to_list fieldnames) out)
             = map (dict_to_list fieldnames) out"
    by (induction out) simp_all
  then show ?thesis
    by (simp add: DictReader_def reread_def comp_def)
qed

lemma find_map_comp: "List.find P (map f xs) = map_option f (List.find (\<lambda>x. P (f x)) xs)"
  by (induction xs) simp_all

lemma index_written:
  "index_rows (map reread out) k =
     (if k = [] then None
      else map_option (\<lambda>x. existing_of_row (reread x))
             (List.find (\<lambda>x. csv_cell x ''englishName'' = k) (rev out)))"
  by (auto simp: index_rows_lookup rev_map find_map_comp english_name_key_reread
      option.map_comp comp_def find_None_iff)

lemma find_SomeD:
  assumes "List.find P xs = Some x"
  shows "x \<in> set xs \<and> P x"
  using assms by (induction xs) (auto split: if_splits)

lemma index_rows_entry:
  assumes "index_rows rows k = Some ex"
  shows "k \<noteq> [] \<and> (\<exists>r \<in> set rows. english_name_key r = Some k \<and> ex = existing_of_row r)"
proof -
  from assms obtain r where
    "List.find (\<lambda>r. english_name_key r = Some k \<and> k \<noteq> []) (rev rows) = Some r"
    and ex: "ex = existing_of_row r"
    by (auto simp: index_rows_lookup)
  then have "r \<in> set rows" "english_name_key r = Some k" "k \<noteq> []"
    by (auto dest: find_SomeD)
  with ex show ?thesis by blast
qed

lemma index_rows_english_name:
  assumes "index_rows rows k = Some ex" and "\<forall>r \<in> set rows. r ''englishName'' \<noteq> None"
  shows "ex_englishName ex = Some k"
proof -
  from index_rows_entry [OF assms(1)] obtain r where
    r: "r \<in> set rows" "english_name_key r = Some k" "ex = existing_of_row r" by blast
  from assms(2) r(1) obtain v where v: "r ''englishName'' = Some v" by auto
  with r(2) have "v = Some k" by (simp add: english_name_key_def dict_get_def)
  with v r(3) show ?thesis by (simp add: existing_of_row_def dict_get_def)
qed

lemma fieldnames_split: "fieldnames = protected_fields @ rating_fields"
  by (simp add: protected_fields_def rating_fields_def)

lemma protected_fields_eq:
  "protected_fields = [''name'', ''englishName'', ''position'', ''playerType'', ''rotationType'']"
  by (simp add: protected_fields_def fieldnames_def)

lemma rating_in_rating_fields: "''rating'' \<in> set rating_fields"
  by (simp add: rating_fields_def fieldnames_def)

lemma same_cellsI:
  assumes "\<forall>k \<in> set protected_fields. csv_cell x k = csv_cell y k"
    and "\<forall>k \<in> set rating_fields. x k = y k"
  shows "same_cells x y"
proof -
  have "csv_cell x k = csv_cell y k" if "k \<in> set fieldnames" for k
    using that assms by (auto simp: fieldnames_split csv_cell_def)
  then have "dict_to_list fieldnames x = dict_to_list fieldnames y"
    by (simp add: dict_to_list_def)
  with assms(2) rating_in_rating_fields show ?thesis
    by (simp add: same_cells_def)
qed

lemma same_cells_refl: "same_cells x x"
  by (simp add: same_cells_def)

lemma merge_player_cases:
  assumes "merge_player E r = Inr x"
  obtains fresh v where "process_player r = Inr fresh" and "r ''name'' = Some v"
    and "case v of
           Some k \<Rightarrow> (case E k of Some ex \<Rightarrow> x = preserve ex fresh | None \<Rightarrow> x = fresh)
         | None \<Rightarrow> x = fresh"
  using assms
  by (auto simp: merge_player_def bindE_eq_Inr split: option.splits)

lemma fresh_protected:
  assumes "process_player r = Inr fresh"
  shows "fresh ''name'' = r ''name''" "fresh ''englishName'' = r ''name''"
    "fresh ''position'' = r ''position''" "fresh ''playerType'' = Some (Some [])"
    "fresh ''rotationType'' = Some (Some [])"
proof -
  from assms obtain a b where disp: "dict_display (processed_items r a b) = Inr fresh"
    by (rule process_player_Inr)
  note f = processed_fields [OF disp]
  show "fresh ''name'' = r ''name''" by (rule f(1))
  show "fresh ''englishName'' = r ''name''" by (rule f(2))
  show "fresh ''position'' = r ''position''" by (rule f(3))
  show "fresh ''playerType'' = Some (Some [])" by (rule f(4))
  show "fresh ''rotationType'' = Some (Some [])" by (rule f(5))
qed

lemma csv_cell_preserve:
  "csv_cell (preserve ex fresh) ''name'' = cell_of (ex_name ex)"
  "csv_cell (preserve ex fresh) ''englishName'' = cell_of (ex_englishName ex)"
  "csv_cell (preserve ex fresh) ''position'' = cell_of (ex_position ex)"
  "csv_cell (preserve ex fresh) ''playerType'' = cell_of (ex_playerType ex)"
  "csv_cell (preserve ex fresh) ''rotationType'' = cell_of (ex_rotationType ex)"
  by (simp_all add: csv_cell_def preserve_def cell_of_def split: option.splits)

lemma csv_cell_fresh:
  assumes "process_player r = Inr fresh"
  shows "csv_cell fresh ''name'' = csv_cell r ''name''"
    "csv_cell fresh ''englishName'' = csv_cell r ''name''"
    "csv_cell fresh ''position'' = csv_cell r ''position''"
    "csv_cell fresh ''playerType'' = []" "csv_cell fresh ''rotationType'' = []"
  using fresh_protected [OF assms] by (simp_all add: csv_cell_def)

lemma preserve_same_cells:
  assumes "\<forall>k \<in> set protected_fields. csv_cell (preserve ex fresh) k = csv_cell x k"
    and "\<forall>k \<in> set rating_fields. x k = fresh k"
  shows "same_cells x (preserve ex fresh)"
proof (rule same_cellsI)
  from assms(1) show "\<forall>k \<in> set protected_fields. csv_cell x k = csv_cell (preserve ex fresh) k"
    by simp
  from assms(2) preserve_rating_fields [of ex fresh]
  show "\<forall>k \<in> set rating_fields. x k = preserve ex fresh k" by simp
qed

text \<open>The second run's view of one player: \<open>E0\<close> is the index of the first run, \<open>pre\<close> the
  records the first run made of the team's rows \<open>ps\<close>, and \<open>E1\<close> the index read back from
  the file the first run wrote.\<close>

lemma rerun_player:
  assumes E0: "\<forall>k ex. E0 k = Some ex \<longrightarrow> ex_englishName ex = Some k \<and> k \<noteq> []"
    and pre: "list_all2 (\<lambda>r x. merge_player E0 r = Inr x) ps pre"
    and E1: "\<forall>k. E1 k =
               (if k = [] then None
                else map_option (\<lambda>y. existing_of_row (reread y))
                       (List.find (\<lambda>y. csv_cell y ''englishName'' = k) out))"
    and out: "set out = set pre"
    and pos: "\<forall>r \<in> set ps. \<forall>r' \<in> set ps. r ''name'' = r' ''name''
                \<longrightarrow> r ''position'' = r' ''position''"
    and r: "r \<in> set ps" and x: "merge_player E0 r = Inr x"
  shows "\<exists>x'. merge_player E1 r = Inr x' \<and> same_cells x x'"
proof -
  from x obtain fresh v where fresh: "process_player r = Inr fresh"
    and name: "r ''name'' = Some v"
    and xc: "case v of
           Some k \<Rightarrow> (case E0 k of Some ex \<Rightarrow> x = preserve ex fresh | None \<Rightarrow> x = fresh)
         | None \<Rightarrow> x = fresh"
    by (rule merge_player_cases)
  have E0_empty: "E0 [] = None"
    using E0 by (cases "E0 []") auto
  have E1_empty: "E1 [] = None" using E1 by simp
  have rating_x: "\<forall>k \<in> set rating_fields. x k = fresh k"
    using xc preserve_rating_fields by (auto split: option.splits)
  show ?thesis
  proof (cases "\<exists>k. v = Some k \<and> k \<noteq> []")
    case False
    then have "v = None \<or> v = Some []" by (cases v) auto
    with xc E0_empty have "x = fresh" by auto
    moreover from \<open>v = None \<or> v = Some []\<close> fresh name E1_empty
    have "merge_player E1 r = Inr fresh"
      by (auto simp: merge_player_def getitem_def)
    ultimately show ?thesis by (auto simp: same_cells_refl)
  next
    case True
    then obtain k where v: "v = Some k" and k: "k \<noteq> []" by blast
    have x_en: "csv_cell x ''englishName'' = k"
    proof (cases "E0 k")
      case None
      with xc v have "x = fresh" by simp
      with csv_cell_fresh(2) [OF fresh] name v show ?thesis by (simp add: csv_cell_def)
    next
      case (Some ex)
      with xc v have "x = preserve ex fresh" by simp
      with E0 Some show ?thesis by (simp add: csv_cell_preserve cell_of_def)
    qed
    have same_prot: "\<forall>f \<in> set protected_fields. csv_cell y f = csv_cell x f"
      if y: "y \<in> set pre" and y_en: "csv_cell y ''englishName'' = k" for y
    proof -
      from y obtain i where i: "i < length pre" "pre ! i = y"
        by (auto simp: in_set_conv_nth)
      with pre have "ps ! i \<in> set ps" "merge_player E0 (ps ! i) = Inr y"
        by (auto simp: list_all2_conv_all_nth)
      then obtain r' where r': "r' \<in> set ps" "merge_player E0 r' = Inr y" by blast
      from r'(2) obtain fresh' v' where fresh': "process_player r' = Inr fresh'"
        and name': "r' ''name'' = Some v'"
        and yc: "case v' of
           Some k \<Rightarrow> (case E0 k of Some ex \<Rightarrow> y = preserve ex fresh' | None \<Rightarrow> y = fresh')
         | None \<Rightarrow> y = fresh'"
        by (rule merge_player_cases)
      show ?thesis
      proof (cases "\<exists>k' ex'. v' = Some k' \<and> E0 k' = Some ex'")
        case True
        then obtain k' ex' where m: "v' = Some k'" "E0 k' = Some ex'" by blast
        with yc have yp: "y = preserve ex' fresh'" by simp
        from E0 m(2) have "ex_englishName ex' = Some k'" by simp
        with yp y_en have "k' = k" by (simp add: csv_cell_preserve cell_of_def)
        with m(2) xc v have "x = preserve ex' fresh" by simp
        with yp show ?thesis
          by (simp add: protected_fields_eq csv_cell_preserve)
      next
        case False
        with yc have yf: "y = fresh'" by (auto split: option.splits)
        with csv_cell_fresh(2) [OF fresh'] name' y_en k have v': "v' = Some k"
          by (cases v') (auto simp: csv_cell_def)
        with False have "E0 k = None" by (cases "E0 k") auto
        with xc v have xf: "x = fresh" by simp
        from pos r r'(1) name name' v v' have "r ''position'' = r' ''position''" by simp
        with csv_cell_fresh [OF fresh] csv_cell_fresh [OF fresh'] name name' v v'
        show ?thesis
          by (simp add: protected_fields_eq xf yf csv_cell_def)
      qed
    qed
    from r obtain i where i: "i < length ps" "ps ! i = r"
      by (auto simp: in_set_conv_nth)
    with pre have "pre ! i \<in> set pre" "merge_player E0 r = Inr (pre ! i)"
      by (auto simp: list_all2_conv_all_nth)
    with x have "x \<in> set pre" by simp
    with out x_en obtain y where
      y: "List.find (\<lambda>y. csv_cell y ''englishName'' = k) out = Some y"
      by (cases "List.find (\<lambda>y. csv_cell y ''englishName'' = k) out")
        (auto simp: find_None_iff)
    from find_SomeD [OF y] out have y_pre: "y \<in> set pre" "csv_cell y ''englishName'' = k"
      by auto
    let ?ex = "existing_of_row (reread y)"
    from E1 k y have "E1 k = Some ?ex" by simp
    with fresh name v have m: "merge_player E1 r = Inr (preserve ?ex fresh)"
      by (simp add: merge_player_def getitem_def)
    have "\<forall>f \<in> set protected_fields. csv_cell (preserve ?ex fresh) f = csv_cell x f"
      using same_prot [OF y_pre]
      by (simp add: protected_fields_eq csv_cell_preserve existing_of_row_reread cell_of_def)
    from preserve_same_cells [OF this rating_x] m show ?thesis by blast
  qed
qed

lemma insort_key_map:
  "insort_key f (g x) (map g ys) = map g (insort_key (\<lambda>y. f (g y)) x ys)"
  by (induction ys) simp_all

lemma sort_key_map: "sort_key f (map g xs) = map g (sort_key (\<lambda>y. f (g y)) xs)"
  by (induction xs) (simp_all add: insort_key_map)

lemma sorted_cells:
  "map c (map snd (sort_key (\<lambda>p. - fst p) (zip ks xs)))
   = map snd (sort_key (\<lambda>p. - fst p) (zip ks (map c xs)))"
proof -
  have "zip ks (map c xs) = map (apsnd c) (zip ks xs)"
    by (simp add: zip_map2 apsnd_def map_prod_def)
  then have "sort_key (\<lambda>p. - fst p) (zip ks (map c xs))
             = map (apsnd c) (sort_key (\<lambda>p. - fst p) (zip ks xs))"
    by (simp add: sort_key_map)
  then show ?thesis by (simp add: comp_def)
qed

lemma same_cells_rating_key: "same_cells x y \<Longrightarrow> rating_key x = rating_key y"
  by (simp add: same_cells_def rating_key_def getitem_def)

lemma same_cells_rating_keys:
  "list_all2 same_cells xs ys \<Longrightarrow> rating_keys xs = rating_keys ys"
  by (induction xs ys rule: list_all2_induct) (simp_all add: same_cells_rating_key)

lemma same_cells_map:
  "list_all2 same_cells xs ys
   \<Longrightarrow> map (dict_to_list fieldnames) xs = map (dict_to_list fieldnames) ys"
  by (induction xs ys rule: list_all2_induct) (simp_all add: same_cells_def)

lemma sort_by_rating_same_cells:
  assumes "list_all2 same_cells pre pre'" and "sort_by_rating pre = Inr out"
  shows "\<exists>out'. sort_by_rating pre' = Inr out'
           \<and> map (dict_to_list fieldnames) out' = map (dict_to_list fieldnames) out"
proof -
  from assms(2) obtain ks where ks: "rating_keys pre = Inr ks"
    and out: "out = map snd (sort_key (\<lambda>p. - fst p) (zip ks pre))"
    by (auto simp: sort_by_rating_def bindE_eq_Inr)
  from same_cells_rating_keys [OF assms(1)] ks have ks': "rating_keys pre' = Inr ks" by simp
  then have "sort_by_rating pre' = Inr (map snd (sort_key (\<lambda>p. - fst p) (zip ks pre')))"
    by (simp add: sort_by_rating_def)
  moreover have "map (dict_to_list fieldnames) (map snd (sort_key (\<lambda>p. - fst p) (zip ks pre')))
                 = map (dict_to_list fieldnames) out"
    unfolding out sorted_cells same_cells_map [OF assms(1)] ..
  ultimately show ?thesis by blast
qed

lemma list_all2_rerun:
  assumes "list_all2 P ps pre"
    and "\<And>r x. r \<in> set ps \<Longrightarrow> P r x \<Longrightarrow> \<exists>x'. Q r x' \<and> S x x'"
  shows "\<exists>pre'. list_all2 Q ps pre' \<and> list_all2 S pre pre'"
  using assms
proof (induction ps pre rule: list_all2_induct)
  case Nil
  then show ?case by simp
next
  case (Cons r ps x pre)
  from Cons.prems [of r x] Cons.hyps(1) obtain x' where x': "Q r x'" "S x x'" by auto
  from Cons.IH Cons.prems obtain pre' where "list_all2 Q ps pre'" "list_all2 S pre pre'"
    by (metis list.set_intros(2))
  with x' have "list_all2 Q (r # ps) (x' # pre') \<and> list_all2 S (x # pre) (x' # pre')" by simp
  then show ?case by blast
qed

lemma read_existing_ok:
  assumes "\<forall>f. fs p = Some f \<longrightarrow> (\<forall>r \<in> set (DictReader f). r ''englishName'' \<noteq> None)"
    and "read_existing_team_data fs p k = Some ex"
  shows "ex_englishName ex = Some k \<and> k \<noteq> []"
proof (cases "fs p")
  case None
  with assms(2) show ?thesis by (simp add: read_existing_team_data_def)
next
  case (Some f)
  with assms(2) have idx: "index_rows (DictReader f) k = Some ex"
    by (simp add: read_existing_team_data_def)
  from assms(1) Some have "\<forall>r \<in> set (DictReader f). r ''englishName'' \<noteq> None" by simp
  from index_rows_english_name [OF idx this] index_rows_entry [OF idx] show ?thesis by simp
qed

lemma rerun_team:
  assumes run: "process_team d t ps w = (None, w')" and code: "team_code t = Some c"
    and old: "\<forall>f. files w (os_path_join d (c @ ''.csv'')) = Some f
                \<longrightarrow> (\<forall>r \<in> set (DictReader f). r ''englishName'' \<noteq> None)"
    and pos: "\<forall>r \<in> set ps. \<forall>r' \<in> set ps. r ''name'' = r' ''name''
                \<longrightarrow> r ''position'' = r' ''position''"
    and v: "files v (os_path_join d (c @ ''.csv'')) = files w' (os_path_join d (c @ ''.csv''))"
  shows "\<exists>v'. process_team d t ps v = (None, v') \<and> files v' = files v"
proof -
  let ?p = "os_path_join d (c @ ''.csv'')"
  let ?E0 = "read_existing_team_data (files w) ?p"
  let ?E1 = "read_existing_team_data (files v) ?p"
  from process_team_ok [OF run code] obtain pre out where
    pre: "merge_players ?E0 ps = Inr pre" and out: "sort_by_rating pre = Inr out"
    and fw: "files w' = (files w)(?p \<mapsto> fieldnames # map (dict_to_list fieldnames) out)"
    by blast
  from fw v have fv: "files v ?p = Some (fieldnames # map (dict_to_list fieldnames) out)"
    by simp
  have E0: "\<forall>k ex. ?E0 k = Some ex \<longrightarrow> ex_englishName ex = Some k \<and> k \<noteq> []"
    using read_existing_ok [where fs = "files w" and p = ?p, OF old] by blast
  have E1: "\<forall>k. ?E1 k =
               (if k = [] then None
                else map_option (\<lambda>y. existing_of_row (reread y))
                       (List.find (\<lambda>y. csv_cell y ''englishName'' = k) (rev out)))"
    by (simp add: read_existing_team_data_def fv DictReader_written index_written)
  from pre have all: "list_all2 (\<lambda>r x. merge_player ?E0 r = Inr x) ps pre"
    by (simp add: merge_players_Inr)
  from sort_by_rating_sorted(2) [OF out] have "set out = set pre"
    by (metis set_mset_mset)
  then have sets: "set (rev out) = set pre" by simp
  have "\<exists>pre'. list_all2 (\<lambda>r x'. merge_player ?E1 r = Inr x') ps pre'
                \<and> list_all2 same_cells pre pre'"
    using all
  proof (rule list_all2_rerun)
    fix r x assume "r \<in> set ps" "merge_player ?E0 r = Inr x"
    with rerun_player [OF E0 all E1 sets pos]
    show "\<exists>x'. merge_player ?E1 r = Inr x' \<and> same_cells x x'" by blast
  qed
  then obtain pre' where pre': "merge_players ?E1 ps = Inr pre'"
    and same: "list_all2 same_cells pre pre'"
    by (auto simp: merge_players_Inr)
  from sort_by_rating_same_cells [OF same out] obtain out' where
    out': "sort_by_rating pre' = Inr out'"
    and cells: "map (dict_to_list fieldnames) out' = map (dict_to_list fieldnames) out"
    by blast
  have "(files v)(?p \<mapsto> fieldnames # map (dict_to_list fieldnames) out') = files v"
    using fv cells by (auto simp: fun_upd_idem_iff)
  with code pre' out' show ?thesis
    by (simp add: process_team_def Let_def print_def write_csv_def)
qed

lemma process_team_files:
  assumes "process_team d t ps w = (e, w')"
  shows "files w' = files w
       \<or> (\<exists>c rows. team_code t = Some c
             \<and> files w' = (files w)(os_path_join d (c @ ''.csv'') \<mapsto> rows))"
  using assms
  by (auto simp: process_team_def Let_def print_def write_csv_def split: option.splits sum.splits)

lemma team_path_inj:
  assumes "os_path_join d (c @ ''.csv'') = os_path_join d (c' @ ''.csv'')"
  shows "c = c'"
  using assms by (simp add: os_path_join_def split: if_splits)

lemma map_of_inj_values:
  assumes "distinct (map snd xs)" and "map_of xs a = Some c" and "map_of xs b = Some c"
  shows "a = b"
proof -
  from assms(2,3) have mem: "(a, c) \<in> set xs" "(b, c) \<in> set xs"
    by (auto dest: map_of_SomeD)
  from assms(1) have inj: "inj_on snd (set xs)" by (simp add: distinct_map)
  from inj_onD [OF inj _ mem] show ?thesis by simp
qed

lemma distinct_team_codes: "distinct (map snd TEAM_MAPPING)"
  by (simp add: TEAM_MAPPING_def)

lemma team_code_inj:
  assumes "team_code t = Some c" and "team_code t' = Some c"
  shows "t = t'"
proof -
  from assms obtain s s' where "t = Some s" "t' = Some s'"
    "map_of TEAM_MAPPING s = Some c" "map_of TEAM_MAPPING s' = Some c"
    by (auto simp: team_code_def split: option.splits)
  with map_of_inj_values [OF distinct_team_codes] show ?thesis by blast
qed

lemma process_teams_files_other:
  assumes "process_teams d gs w = (e, w')"
    and "\<forall>(t, ps) \<in> set gs. \<forall>c. team_code t = Some c \<longrightarrow> os_path_join d (c @ ''.csv'') \<noteq> q"
  shows "files w' q = files w q"
  using assms
proof (induction gs arbitrary: w)
  case Nil
  then show ?case by simp
next
  case (Cons g gs)
  obtain t ps where g: "g = (t, ps)" by (cases g)
  obtain e1 w1 where r1: "process_team d t ps w = (e1, w1)" by (cases "process_team d t ps w")
  from process_team_files [OF r1] Cons.prems(2) have f1: "files w1 q = files w q"
    by (auto simp: g)
  show ?case
  proof (cases e1)
    case None
    with Cons.prems(1) r1 have "process_teams d gs w1 = (e, w')" by (simp add: g)
    from Cons.IH [OF this] Cons.prems(2) f1 show ?thesis by simp
  next
    case (Some err)
    with Cons.prems(1) r1 have "w' = w1" by (auto simp: g)
    with f1 show ?thesis by simp
  qed
qed

lemma rerun_teams:
  assumes "process_teams d gs w = (None, w')" and "distinct (map fst gs)"
    and "\<forall>(t, ps) \<in> set gs. \<forall>c f. team_code t = Some c
           \<longrightarrow> files w (os_path_join d (c @ ''.csv'')) = Some f
           \<longrightarrow> (\<forall>r \<in> set (DictReader f). r ''englishName'' \<noteq> None)"
    and "\<forall>(t, ps) \<in> set gs. \<forall>r \<in> set ps. \<forall>r' \<in> set ps. r ''name'' = r' ''name''
           \<longrightarrow> r ''position'' = r' ''position''"
    and "\<forall>(t, ps) \<in> set gs. \<forall>c. team_code t = Some c
           \<longrightarrow> files v (os_path_join d (c @ ''.csv'')) = files w' (os_path_join d (c @ ''.csv''))"
  shows "\<exists>v'. process_teams d gs v = (None, v') \<and> files v' = files v"
  using assms
proof (induction gs arbitrary: w v)
  case Nil
  then show ?case by simp
next
  case (Cons g gs)
  obtain t ps where g: "g = (t, ps)" by (cases g)
  obtain e1 w1 where r1: "process_team d t ps w = (e1, w1)" by (cases "process_team d t ps w")
  with Cons.prems(1) have e1: "e1 = None" and rest: "process_teams d gs w1 = (None, w')"
    by (auto simp: g split: option.splits)
  from Cons.prems(2) have dist: "distinct (map fst gs)" and t_new: "t \<notin> fst ` set gs"
    by (simp_all add: g)
  have other: "os_path_join d (c' @ ''.csv'') \<noteq> os_path_join d (c @ ''.csv'')"
    if "team_code t = Some c" "(t', ps') \<in> set gs" "team_code t' = Some c'" for c t' ps' c'
  proof
    assume "os_path_join d (c' @ ''.csv'') = os_path_join d (c @ ''.csv'')"
    then have "c' = c" by (rule team_path_inj)
    with that(1,3) have "t' = t" by (auto intro: team_code_inj)
    with that(2) t_new show False by force
  qed
  have step: "\<exists>v1. process_team d t ps v = (None, v1) \<and> files v1 = files v"
  proof (cases "team_code t")
    case None
    then show ?thesis by (simp add: process_team_unmapped print_def)
  next
    case (Some c)
    let ?p = "os_path_join d (c @ ''.csv'')"
    have "files w' ?p = files w1 ?p"
      by (rule process_teams_files_other [OF rest]) (use other [OF Some] in auto)
    with Cons.prems(5) Some have agree: "files v ?p = files w1 ?p" by (simp add: g)
    from Cons.prems(3) Some
    have old: "\<forall>f. files w ?p = Some f \<longrightarrow> (\<forall>r \<in> set (DictReader f). r ''englishName'' \<noteq> None)"
      by (simp add: g)
    from Cons.prems(4)
    have pos: "\<forall>r \<in> set ps. \<forall>r' \<in> set ps. r ''name'' = r' ''name''
                 \<longrightarrow> r ''position'' = r' ''position''"
      by (simp add: g)
    from r1 e1 have "process_team d t ps w = (None, w1)" by simp
    from rerun_team [OF this Some old pos agree] show ?thesis .
  qed
  then obtain v1 where v1: "process_team d t ps v = (None, v1)" "files v1 = files v" by blast
  have old1: "\<forall>(t, ps) \<in> set gs. \<forall>c f. team_code t = Some c
           \<longrightarrow> files w1 (os_path_join d (c @ ''.csv'')) = Some f
           \<longrightarrow> (\<forall>r \<in> set (DictReader f). r ''englishName'' \<noteq> None)"
  proof (clarify)
    fix t' ps' c' f r
    assume a: "(t', ps') \<in> set gs" "team_code t' = Some c'"
      "files w1 (os_path_join d (c' @ ''.csv'')) = Some f" "r \<in> set (DictReader f)"
    from process_team_files [OF r1] other [OF _ a(1,2)]
    have "files w1 (os_path_join d (c' @ ''.csv'')) = files w (os_path_join d (c' @ ''.csv''))"
      by auto
    with a Cons.prems(3) show "\<exists>y. r ''englishName'' = Some y" by fastforce
  qed
  have pos1: "\<forall>(t, ps) \<in> set gs. \<forall>r \<in> set ps. \<forall>r' \<in> set ps. r ''name'' = r' ''name''
           \<longrightarrow> r ''position'' = r' ''position''"
    using Cons.prems(4) by simp
  have agree1: "\<forall>(t, ps) \<in> set gs. \<forall>c. team_code t = Some c
           \<longrightarrow> files v1 (os_path_join d (c @ ''.csv'')) = files w' (os_path_join d (c @ ''.csv''))"
    using Cons.prems(5) v1(2) by simp
  from Cons.IH [OF rest dist old1 pos1 agree1] obtain v' where
    "process_teams d gs v1 = (None, v')" "files v' = files v1" by blast
  with v1 show ?case by (simp add: g)
qed


text \<open>The groups of \<open>group_by_team\<close>: one per team, each holding rows of that team.\<close>

lemma add_player_fst: "fst ` set (add_player team row acc) = insert team (fst ` set acc)"
proof (induction acc)
  case Nil
  then show ?case by simp
next
  case (Cons g acc)
  obtain t ps where g: "g = (t, ps)" by (cases g)
  show ?case
  proof (cases "t = team")
    case True
    then show ?thesis by (simp add: g)
  next
    case False
    then have "fst ` set (add_player team row (g # acc))
               = insert t (fst ` set (add_player team row acc))"
      by (simp add: g)
    with Cons.IH show ?thesis by (simp add: g insert_commute)
  qed
qed

lemma add_player_distinct:
  "distinct (map fst acc) \<Longrightarrow> distinct (map fst (add_player team row acc))"
proof (induction acc)
  case Nil
  then show ?case by simp
next
  case (Cons g acc)
  obtain t ps where g: "g = (t, ps)" by (cases g)
  from Cons.prems have t: "t \<notin> fst ` set acc" and d: "distinct (map fst acc)"
    by (simp_all add: g)
  show ?case
  proof (cases "t = team")
    case True
    with t d show ?thesis by (simp add: g)
  next
    case False
    with t have "t \<notin> fst ` set (add_player team row acc)"
      by (simp add: add_player_fst)
    with False Cons.IH [OF d] show ?thesis by (simp add: g)
  qed
qed

lemma add_player_set:
  assumes "(t, ps) \<in> set (add_player team row acc)" and "r \<in> set ps"
  shows "(r = row \<and> t = team) \<or> (\<exists>ps'. (t, ps') \<in> set acc \<and> r \<in> set ps')"
  using assms
proof (induction acc)
  case Nil
  then show ?case by simp
next
  case (Cons g acc)
  obtain t' ps' where g: "g = (t', ps')" by (cases g)
  show ?case
  proof (cases "t' = team")
    case True
    with Cons.prems show ?thesis by (auto simp: g)
  next
    case False
    with Cons.prems have "(t, ps) = (t', ps') \<or> (t, ps) \<in> set (add_player team row acc)"
      by (simp add: g)
    then show ?thesis
    proof
      assume "(t, ps) = (t', ps')"
      with Cons.prems(2) show ?thesis by (auto simp: g)
    next
      assume "(t, ps) \<in> set (add_player team row acc)"
      from Cons.IH [OF this Cons.prems(2)] show ?thesis by (auto simp: g)
    qed
  qed
qed

lemma group_by_team_sound:
  assumes "group_by_team rows acc = Inr groups"
    and "distinct (map fst acc)"
    and "\<forall>(t, ps) \<in> set acc. \<forall>r \<in> set ps. r \<in> S \<and> r ''team'' = Some t"
    and "set rows \<subseteq> S"
  shows "distinct (map fst groups)
       \<and> (\<forall>(t, ps) \<in> set groups. \<forall>r \<in> set ps. r \<in> S \<and> r ''team'' = Some t)"
  using assms
proof (induction rows arbitrary: acc)
  case Nil
  then show ?case by simp
next
  case (Cons row rows)
  from Cons.prems(1) obtain team where team: "row ''team'' = Some team"
    and rest: "group_by_team rows (add_player team row acc) = Inr groups"
    by (auto simp: bindE_eq_Inr)
  have d: "distinct (map fst (add_player team row acc))"
    using Cons.prems(2) by (rule add_player_distinct)
  have inv: "\<forall>(t, ps) \<in> set (add_player team row acc). \<forall>r \<in> set ps. r \<in> S \<and> r ''team'' = Some t"
  proof (clarify)
    fix t ps r assume a: "(t, ps) \<in> set (add_player team row acc)" "r \<in> set ps"
    from add_player_set [OF a] Cons.prems(3,4) team
    show "r \<in> S \<and> r ''team'' = Some t" by auto
  qed
  from Cons.prems(4) have "set rows \<subseteq> S" by simp
  from Cons.IH [OF rest d inv this] show ?case .
qed

text \<open>What \<open>main\<close> does to the files is what the team loop does to them.\<close>

lemma main_files:
  assumes "files w input_file = Some f" and "group_by_team (DictReader f) [] = Inr groups"
  shows "fst (main w) = fst (process_teams output_dir groups w)
       \<and> files (snd (main w)) = files (snd (process_teams output_dir groups w))"
proof -
  define w4 where "w4 = print (replicate 60 CHR ''-'') (print (''Output directory: '' @ output_dir)
              (print (''Input file: '' @ input_file) (print ''Starting roster processing...'' w)))"
  have f4: "files w4 = files w" by (simp add: w4_def print_def)
  obtain e w' where run: "process_teams output_dir groups w4 = (e, w')"
    by (cases "process_teams output_dir groups w4")
  from process_teams_stdout [OF f4, of output_dir groups] run
  have eq: "fst (process_teams output_dir groups w) = e"
    "files (snd (process_teams output_dir groups w)) = files w'" by simp_all
  from assms f4 have pr: "process_roster input_file output_dir w4 = (e, w')"
    by (simp add: process_roster_def run)
  have "main w = (case process_roster input_file output_dir w4 of
                    (Some e, w') \<Rightarrow> (Some e, w')
                  | (None, w') \<Rightarrow>
                      (None, print ''Roster processing completed!''
                               (print (replicate 60 CHR ''-'') w')))"
    unfolding main_def Let_def w4_def using assms(1) by simp
  then have "fst (main w) = e \<and> files (snd (main w)) = files w'"
    unfolding pr by (cases e) (simp_all add: print_def)
  with eq show ?thesis by simp
qed

lemma main_load_error:
  assumes "files w input_file = Some f" and "group_by_team (DictReader f) [] = Inl e"
  shows "fst (main w) = Some e"
proof -
  define w4 where "w4 = print (replicate 60 CHR ''-'') (print (''Output directory: '' @ output_dir)
              (print (''Input file: '' @ input_file) (print ''Starting roster processing...'' w)))"
  have f4: "files w4 = files w" by (simp add: w4_def print_def)
  from assms f4 have pr: "process_roster input_file output_dir w4 = (Some e, w4)"
    by (simp add: process_roster_def)
  have "main w = (case process_roster input_file output_dir w4 of
                    (Some e, w') \<Rightarrow> (Some e, w')
                  | (None, w') \<Rightarrow>
                      (None, print ''Roster processing completed!''
                               (print (replicate 60 CHR ''-'') w')))"
    unfolding main_def Let_def w4_def using assms(1) by simp
  then show ?thesis unfolding pr by simp
qed

lemma temp_not_team_code: "map_of TEAM_MAPPING s \<noteq> Some ''temp''"
proof
  assume "map_of TEAM_MAPPING s = Some ''temp''"
  then have "(s, ''temp'') \<in> set TEAM_MAPPING" by (rule map_of_SomeD)
  then have "''temp'' \<in> snd ` set TEAM_MAPPING" by force
  then show False by (simp add: TEAM_MAPPING_def)
qed

lemma input_file_not_team_file:
  assumes "team_code t = Some c"
  shows "os_path_join output_dir (c @ ''.csv'') \<noteq> input_file"
proof
  assume "os_path_join output_dir (c @ ''.csv'') = input_file"
  then have "c = ''temp''"
    by (simp add: os_path_join_def output_dir_def input_file_def)
  with assms temp_not_team_code show False
    by (auto simp: team_code_def split: option.splits)
qed

text \<open>Runs of \<open>main\<close> on rosters of one team.\<close>

lemma team_record_eq:
  "dict_to_list fieldnames (roster_player n p r) = team_record n n p [] [] r"
  by (simp add: dict_to_list_def fieldnames_def csv_cell_def roster_player_def team_record_def)

lemma process_team_run:
  assumes "team_code t = Some c"
    and "merge_players (read_existing_team_data (files w) (os_path_join d (c @ ''.csv''))) ps
           = Inr pre"
    and "sort_by_rating pre = Inr out"
  shows "process_team d t ps w
         = (None, print (''  -> Saved '' @ len_str out @ '' players to ''
                         @ os_path_join d (c @ ''.csv''))
                    (write_csv (os_path_join d (c @ ''.csv'')) fieldnames out
                       (print (''Processing '' @ py_format t @ '' -> '' @ c
                               @ ''.csv ('' @ len_str ps @ '' players)'') w)))"
  using assms by (simp add: process_team_def Let_def)

lemma main_one_team:
  assumes "files w input_file = Some f" and "group_by_team (DictReader f) [] = Inr [(t, ps)]"
    and "team_code t = Some c"
    and "merge_players (read_existing_team_data (files w) (os_path_join output_dir (c @ ''.csv'')))
           ps = Inr pre"
    and "sort_by_rating pre = Inr out"
  shows "fst (main w) = None
       \<and> files (snd (main w))
         = (files w)(os_path_join output_dir (c @ ''.csv'') \<mapsto>
              fieldnames # map (dict_to_list fieldnames) out)"
proof -
  from process_team_run [OF assms(3,4,5)]
  have "fst (process_teams output_dir [(t, ps)] w) = None
      \<and> files (snd (process_teams output_dir [(t, ps)] w))
        = (files w)(os_path_join output_dir (c @ ''.csv'') \<mapsto>
              fieldnames # map (dict_to_list fieldnames) out)"
    by (simp add: print_def write_csv_def)
  with main_files [OF assms(1,2)] show ?thesis by simp
qed

lemma py_int_90: "py_int ''90'' = Some 90"
  by (simp add: py_int_eval)

lemma same_name_roster_rows:
  "DictReader same_name_roster =
     [roster_row ''Atlanta Hawks'' ''John Doe'' ''PG'' ''85'',
      roster_row ''Atlanta Hawks'' ''John Doe'' ''SG'' ''90'']"
  by (simp add: DictReader_def same_name_roster_def roster_row_def roster_record_def)

lemma two_hawks_roster_rows: "DictReader two_hawks_roster = two_hawks"
  by (simp add: DictReader_def two_hawks_roster_def two_hawks_def roster_row_def roster_record_def)

lemma group_two_rows:
  "group_by_team [roster_row t n p r, roster_row t n' p' r'] []
   = Inr [(Some t, [roster_row t n p r, roster_row t n' p' r'])]"
  by (simp add: getitem_def roster_row_team)

lemma hawks_not_input: "''public/data/rosters/Hawks.csv'' \<noteq> input_file"
  by (simp add: input_file_def)

lemma merge_fresh_two:
  "merge_players Map.empty [roster_row t n p r, roster_row t n' p' r']
   = Inr [roster_player n p r, roster_player n' p' r']"
  by (simp add: merge_players_Inr
      merge_player_unmatched [where existing = Map.empty, OF process_player_roster_row])

lemma sort_same_name:
  "sort_by_rating [roster_player ''John Doe'' ''PG'' ''85'', roster_player ''John Doe'' ''SG'' ''90'']
   = Inr [roster_player ''John Doe'' ''SG'' ''90'', roster_player ''John Doe'' ''PG'' ''85'']"
  by (simp add: sort_by_rating_def rating_key_roster_player int_of_val_def py_int_85 py_int_90)

lemma same_name_first_run:
  "fst (main same_name_world) = None
   \<and> files (snd (main same_name_world))
     = [input_file \<mapsto> same_name_roster,
        ''public/data/rosters/Hawks.csv'' \<mapsto>
          [fieldnames, team_record ''John Doe'' ''John Doe'' ''SG'' [] [] ''90'', team_record ''John Doe'' ''John Doe'' ''PG'' [] [] ''85'']]"
proof -
  have f: "files same_name_world input_file = Some same_name_roster"
    by (simp add: same_name_world_def)
  have g: "group_by_team (DictReader same_name_roster) []
           = Inr [(Some ''Atlanta Hawks'', [roster_row ''Atlanta Hawks'' ''John Doe'' ''PG'' ''85'',
      roster_row ''Atlanta Hawks'' ''John Doe'' ''SG'' ''90''])]"
    unfolding same_name_roster_rows by (rule group_two_rows)
  have e: "read_existing_team_data (files same_name_world)
             (os_path_join output_dir (''Hawks'' @ ''.csv'')) = Map.empty"
    using hawks_not_input
    by (simp add: os_path_join_hawks read_existing_team_data_def same_name_world_def)
  have m: "merge_players (read_existing_team_data (files same_name_world)
             (os_path_join output_dir (''Hawks'' @ ''.csv'')))
             [roster_row ''Atlanta Hawks'' ''John Doe'' ''PG'' ''85'',
              roster_row ''Atlanta Hawks'' ''John Doe'' ''SG'' ''90'']
           = Inr [roster_player ''John Doe'' ''PG'' ''85'', roster_player ''John Doe'' ''SG'' ''90'']"
    unfolding e by (rule merge_fresh_two)
  from main_one_team [OF f g team_code_hawks m sort_same_name]
  show ?thesis
    by (simp add: os_path_join_hawks team_record_eq same_name_world_def)
qed


lemma reread_team_record:
  "existing_of_row (dict_row fieldnames (team_record n e p y z r))
   = \<lparr>ex_name = Some n, ex_englishName = Some e, ex_position = Some p,
      ex_playerType = Some y, ex_rotationType = Some z\<rparr>"
  "english_name_key (dict_row fieldnames (team_record n e p y z r)) = Some e"
  by (simp_all add: existing_of_row_def english_name_key_def dict_get_def dict_row_def
      fieldnames_def team_record_def)

lemma rating_key_preserve: "rating_key (preserve ex x) = rating_key x"
  by (simp add: rating_key_def getitem_def preserve_def)

lemma team_record_preserve:
  "dict_to_list fieldnames
     (preserve \<lparr>ex_name = Some n', ex_englishName = Some e', ex_position = Some p',
                ex_playerType = Some y', ex_rotationType = Some z'\<rparr> (roster_player n p r))
   = team_record n' e' p' y' z' r"
  by (simp add: dict_to_list_def fieldnames_def csv_cell_def roster_player_def team_record_def
      preserve_def)

lemma sort_same_name_preserved:
  "sort_by_rating [preserve ex (roster_player ''John Doe'' ''PG'' ''85''),
                   preserve ex (roster_player ''John Doe'' ''SG'' ''90'')]
   = Inr [preserve ex (roster_player ''John Doe'' ''SG'' ''90''),
          preserve ex (roster_player ''John Doe'' ''PG'' ''85'')]"
  by (simp add: sort_by_rating_def rating_key_preserve rating_key_roster_player int_of_val_def
      py_int_85 py_int_90)

lemma same_name_second_run:
  "fst (main (snd (main same_name_world))) = None
   \<and> files (snd (main (snd (main same_name_world))))
     = [input_file \<mapsto> same_name_roster,
        ''public/data/rosters/Hawks.csv'' \<mapsto>
          [fieldnames, team_record ''John Doe'' ''John Doe'' ''PG'' [] [] ''90'', team_record ''John Doe'' ''John Doe'' ''PG'' [] [] ''85'']]"
proof -
  let ?w1 = "snd (main same_name_world)"
  let ?ex = "\<lparr>ex_name = Some ''John Doe'', ex_englishName = Some ''John Doe'',
              ex_position = Some ''PG'', ex_playerType = Some [], ex_rotationType = Some []\<rparr>"
  let ?r1 = "roster_row ''Atlanta Hawks'' ''John Doe'' ''PG'' ''85''"
  let ?r2 = "roster_row ''Atlanta Hawks'' ''John Doe'' ''SG'' ''90''"
  from same_name_first_run have fw: "files ?w1
     = [input_file \<mapsto> same_name_roster,
        ''public/data/rosters/Hawks.csv'' \<mapsto>
          [fieldnames, team_record ''John Doe'' ''John Doe'' ''SG'' [] [] ''90'', team_record ''John Doe'' ''John Doe'' ''PG'' [] [] ''85'']]"
    by simp
  have f: "files ?w1 input_file = Some same_name_roster"
    unfolding fw using hawks_not_input by simp
  have g: "group_by_team (DictReader same_name_roster) []
           = Inr [(Some ''Atlanta Hawks'', [?r1, ?r2])]"
    unfolding same_name_roster_rows by (rule group_two_rows)
  have rows: "DictReader [fieldnames, team_record ''John Doe'' ''John Doe'' ''SG'' [] [] ''90'',
                         team_record ''John Doe'' ''John Doe'' ''PG'' [] [] ''85'']
              = [dict_row fieldnames (team_record ''John Doe'' ''John Doe'' ''SG'' [] [] ''90'')]
                @ dict_row fieldnames (team_record ''John Doe'' ''John Doe'' ''PG'' [] [] ''85'') # []"
    by (simp add: DictReader_def team_record_def)
  have p: "os_path_join output_dir (''Hawks'' @ ''.csv'') = ''public/data/rosters/Hawks.csv''"
    by (simp add: os_path_join_hawks)
  have "index_rows ([dict_row fieldnames (team_record ''John Doe'' ''John Doe'' ''SG'' [] [] ''90'')]
                @ dict_row fieldnames (team_record ''John Doe'' ''John Doe'' ''PG'' [] [] ''85'') # []) ''John Doe''
        = Some (existing_of_row (dict_row fieldnames (team_record ''John Doe'' ''John Doe'' ''PG'' [] [] ''85'')))"
    by (rule index_rows_last [OF reread_team_record(2)]) simp_all
  then have idx: "index_rows (DictReader [fieldnames, team_record ''John Doe'' ''John Doe'' ''SG'' [] [] ''90'',
                         team_record ''John Doe'' ''John Doe'' ''PG'' [] [] ''85'']) ''John Doe'' = Some ?ex"
    unfolding rows reread_team_record(1) .
  define E where
    "E = read_existing_team_data (files ?w1) (os_path_join output_dir (''Hawks'' @ ''.csv''))"
  have e: "E ''John Doe'' = Some ?ex"
    unfolding E_def fw p using idx by (simp add: read_existing_team_data_def)
  have "merge_players E [?r1, ?r2]
           = Inr [preserve ?ex (roster_player ''John Doe'' ''PG'' ''85''),
                  preserve ?ex (roster_player ''John Doe'' ''SG'' ''90'')]"
    by (simp add: merge_players_Inr
        merge_player_matched [where existing = E, OF process_player_roster_row roster_row_name e])
  then have m: "merge_players (read_existing_team_data (files ?w1)
             (os_path_join output_dir (''Hawks'' @ ''.csv''))) [?r1, ?r2]
           = Inr [preserve ?ex (roster_player ''John Doe'' ''PG'' ''85''),
                  preserve ?ex (roster_player ''John Doe'' ''SG'' ''90'')]"
    unfolding E_def .
  from main_one_team [OF f g team_code_hawks m sort_same_name_preserved]
  show ?thesis
    unfolding fw
    by (simp add: os_path_join_hawks team_record_preserve)
qed


lemma two_hawks_first_run:
  "fst (main two_hawks_world) = None
   \<and> files (snd (main two_hawks_world))
     = [input_file \<mapsto> two_hawks_roster,
        ''public/data/rosters/Hawks.csv'' \<mapsto>
          [fieldnames, team_record ''Bo Ten'' ''Bo Ten'' ''SG'' [] [] ''10'', team_record ''Al Nine'' ''Al Nine'' ''PG'' [] [] ''9'']]"
proof -
  have f: "files two_hawks_world input_file = Some two_hawks_roster"
    by (simp add: two_hawks_world_def)
  have g: "group_by_team (DictReader two_hawks_roster) [] = Inr [(Some ''Atlanta Hawks'', two_hawks)]"
    unfolding two_hawks_roster_rows unfolding two_hawks_def by (rule group_two_rows)
  have e: "read_existing_team_data (files two_hawks_world)
             (os_path_join output_dir (''Hawks'' @ ''.csv'')) = Map.empty"
    using hawks_not_input
    by (simp add: os_path_join_hawks read_existing_team_data_def two_hawks_world_def)
  have m: "merge_players (read_existing_team_data (files two_hawks_world)
             (os_path_join output_dir (''Hawks'' @ ''.csv''))) two_hawks
           = Inr [roster_player ''Al Nine'' ''PG'' ''9'', roster_player ''Bo Ten'' ''SG'' ''10'']"
    unfolding e by (rule merge_players_two_hawks)
  from main_one_team [OF f g team_code_hawks m sort_two_hawks]
  show ?thesis
    by (simp add: os_path_join_hawks team_record_eq two_hawks_world_def)
qed

lemma one_hawk_roster_rows:
  "DictReader one_hawk_roster = [roster_row ''Atlanta Hawks'' ''John Doe'' ''SG'' ''85'']"
  by (simp add: DictReader_def one_hawk_roster_def roster_row_def roster_record_def)

lemma group_one_row:
  "group_by_team [roster_row t n p r] [] = Inr [(Some t, [roster_row t n p r])]"
  by (simp add: getitem_def roster_row_team)

lemma sort_single:
  "sort_by_rating [preserve ex (roster_player n p ''85'')] = Inr [preserve ex (roster_player n p ''85'')]"
  "sort_by_rating [roster_player n p ''85''] = Inr [roster_player n p ''85'']"
  by (simp_all add: sort_by_rating_def rating_key_preserve rating_key_roster_player int_of_val_def
      py_int_85)

lemma legacy_first_run:
  "fst (main legacy_world) = None
   \<and> files (snd (main legacy_world))
     = [input_file \<mapsto> one_hawk_roster,
        ''public/data/rosters/Hawks.csv'' \<mapsto>
          [fieldnames, team_record ''John Doe'' [] ''PG'' ''Starter'' ''First'' ''85'']]"
proof -
  let ?ex = "\<lparr>ex_name = Some ''John Doe'', ex_englishName = Some [],
              ex_position = Some ''PG'', ex_playerType = Some ''Starter'',
              ex_rotationType = Some ''First''\<rparr>"
  let ?r = "roster_row ''Atlanta Hawks'' ''John Doe'' ''SG'' ''85''"
  have f: "files legacy_world input_file = Some one_hawk_roster"
    using hawks_not_input by (simp add: legacy_world_def)
  have g: "group_by_team (DictReader one_hawk_roster) [] = Inr [(Some ''Atlanta Hawks'', [?r])]"
    unfolding one_hawk_roster_rows by (rule group_one_row)
  have p: "os_path_join output_dir (''Hawks'' @ ''.csv'') = ''public/data/rosters/Hawks.csv''"
    by (simp add: os_path_join_hawks)
  define E where
    "E = read_existing_team_data (files legacy_world) (os_path_join output_dir (''Hawks'' @ ''.csv''))"
  have e: "E ''John Doe'' = Some ?ex"
    unfolding E_def p
    by (simp add: legacy_world_def read_existing_team_data_def DictReader_def
        no_english_name_file_def index_rows_def index_row_def english_name_key_def
        existing_of_row_def dict_get_def dict_row_def)
  have "merge_players E [?r] = Inr [preserve ?ex (roster_player ''John Doe'' ''SG'' ''85'')]"
    by (simp add: merge_players_Inr
        merge_player_matched [where existing = E, OF process_player_roster_row roster_row_name e])
  then have m: "merge_players (read_existing_team_data (files legacy_world)
             (os_path_join output_dir (''Hawks'' @ ''.csv''))) [?r]
           = Inr [preserve ?ex (roster_player ''John Doe'' ''SG'' ''85'')]"
    unfolding E_def .
  from main_one_team [OF f g team_code_hawks m sort_single(1)]
  show ?thesis
    by (simp add: os_path_join_hawks team_record_preserve legacy_world_def)
qed

lemma legacy_second_run:
  "fst (main (snd (main legacy_world))) = None
   \<and> files (snd (main (snd (main legacy_world))))
     = [input_file \<mapsto> one_hawk_roster,
        ''public/data/rosters/Hawks.csv'' \<mapsto>
          [fieldnames, team_record ''John Doe'' ''John Doe'' ''SG'' [] [] ''85'']]"
proof -
  let ?w1 = "snd (main legacy_world)"
  let ?r = "roster_row ''Atlanta Hawks'' ''John Doe'' ''SG'' ''85''"
  let ?rec = "team_record ''John Doe'' [] ''PG'' ''Starter'' ''First'' ''85''"
  from legacy_first_run have fw: "files ?w1
     = [input_file \<mapsto> one_hawk_roster, ''public/data/rosters/Hawks.csv'' \<mapsto> [fieldnames, ?rec]]"
    by simp
  have f: "files ?w1 input_file = Some one_hawk_roster"
    unfolding fw using hawks_not_input by simp
  have g: "group_by_team (DictReader one_hawk_roster) [] = Inr [(Some ''Atlanta Hawks'', [?r])]"
    unfolding one_hawk_roster_rows by (rule group_one_row)
  have p: "os_path_join output_dir (''Hawks'' @ ''.csv'') = ''public/data/rosters/Hawks.csv''"
    by (simp add: os_path_join_hawks)
  have rows: "DictReader [fieldnames, ?rec] = [dict_row fieldnames ?rec]"
    by (simp add: DictReader_def team_record_def)
  define E where
    "E = read_existing_team_data (files ?w1) (os_path_join output_dir (''Hawks'' @ ''.csv''))"
  have e: "E key = None" for key
    unfolding E_def fw p
    by (auto simp: read_existing_team_data_def rows index_rows_None reread_team_record(2))
  have "merge_players E [?r] = Inr [roster_player ''John Doe'' ''SG'' ''85'']"
    by (simp add: merge_players_Inr e
        merge_player_unmatched [where existing = E, OF process_player_roster_row])
  then have m: "merge_players (read_existing_team_data (files ?w1)
             (os_path_join output_dir (''Hawks'' @ ''.csv''))) [?r]
           = Inr [roster_player ''John Doe'' ''SG'' ''85'']"
    unfolding E_def .
  from main_one_team [OF f g team_code_hawks m sort_single(2)]
  show ?thesis
    unfolding fw by (simp add: os_path_join_hawks team_record_eq)
qed

text \<open>
  A team file without an \<open>englishName\<close> column is not reproduced by the second run either.
  The first run finds John Doe by the \<open>name\<close> column and keeps position \<open>PG\<close>, \<open>Starter\<close> and
  \<open>First\<close>, but writes an empty \<open>englishName\<close>; the second run therefore does not index the
  row, and writes the roster's position \<open>SG\<close> and empty \<open>playerType\<close> and \<open>rotationType\<close>.
\<close>

lemma legacy_file_rerun_differs:
  "fst (main legacy_world) = None
   \<and> files (snd (main legacy_world)) ''public/data/rosters/Hawks.csv''
     = Some [fieldnames, team_record ''John Doe'' [] ''PG'' ''Starter'' ''First'' ''85'']
   \<and> fst (main (snd (main legacy_world))) = None
   \<and> files (snd (main (snd (main legacy_world)))) ''public/data/rosters/Hawks.csv''
     = Some [fieldnames, team_record ''John Doe'' ''John Doe'' ''SG'' [] [] ''85'']"
  using legacy_first_run legacy_second_run by simp

section \<open>Reconciliation with the existing team file\<close>

text \<open>
  Claim C1. When the roster row's display name is a key of the index of the existing team
  file, the record that goes to the output has its five protected fields (\<open>name\<close>,
  \<open>englishName\<close>, \<open>position\<close>, \<open>playerType\<close>, \<open>rotationType\<close>) from the existing entry,
  and each of the twenty rating fields is the value \<open>process_player\<close> computes from the
  roster row: the eighteen copied columns, and \<open>astRating\<close> and \<open>athleticism\<close> as the
  decimal strings of \<^verbatim>\<open>math.floor\<close> of the two averages.
\<close>

theorem reconcile_matched:
  assumes "merge_player existing_player_info row = Inr p"
    and "row ''name'' = Some (Some key)"
    and "existing_player_info key = Some ex"
  shows "p ''name'' = Some (ex_name ex) \<and> p ''englishName'' = Some (ex_englishName ex)
       \<and> p ''position'' = Some (ex_position ex) \<and> p ''playerType'' = Some (ex_playerType ex)
       \<and> p ''rotationType'' = Some (ex_rotationType ex)
       \<and> (\<exists>fresh. process_player row = Inr fresh \<and> (\<forall>f \<in> set rating_fields. p f = fresh f))
       \<and> (\<forall>(out, src) \<in> set copied_fields. p out = row src)
       \<and> (\<exists>pa pq pv a. int_item row ''passAccuracy'' = Inr pa \<and> int_item row ''passIQ'' = Inr pq
            \<and> int_item row ''passVision'' = Inr pv
            \<and> math_floor_truediv (pa + pq + pv) 3 = Inr a
            \<and> p ''astRating'' = Some (Some (py_str a)))
       \<and> (\<exists>sp ag st ve sm hu b. int_item row ''speed'' = Inr sp \<and> int_item row ''agility'' = Inr ag
            \<and> int_item row ''strength'' = Inr st \<and> int_item row ''vertical'' = Inr ve
            \<and> int_item row ''stamina'' = Inr sm \<and> int_item row ''hustle'' = Inr hu
            \<and> math_floor_truediv (sp + ag + st + ve + sm + hu) 6 = Inr b
            \<and> p ''athleticism'' = Some (Some (py_str b)))"
proof -
  from assms(1) obtain fresh where fresh: "process_player row = Inr fresh"
    by (rule merge_player_Inr)
  from merge_player_matched [where existing = existing_player_info, OF fresh assms(2,3)] assms(1)
  have p: "p = preserve ex fresh" by simp
  from fresh obtain pa pq pv sp ag st ve sm hu a b where
    ints: "int_item row ''passAccuracy'' = Inr pa" "int_item row ''passIQ'' = Inr pq"
      "int_item row ''passVision'' = Inr pv"
      "math_floor_truediv (pa + pq + pv) 3 = Inr a"
      "int_item row ''speed'' = Inr sp" "int_item row ''agility'' = Inr ag"
      "int_item row ''strength'' = Inr st" "int_item row ''vertical'' = Inr ve"
      "int_item row ''stamina'' = Inr sm" "int_item row ''hustle'' = Inr hu"
      "math_floor_truediv (sp + ag + st + ve + sm + hu) 6 = Inr b"
    and disp: "dict_display (processed_items row a b) = Inr fresh"
    by (rule process_player_Inr)
  have prot: "p ''name'' = Some (ex_name ex) \<and> p ''englishName'' = Some (ex_englishName ex)
       \<and> p ''position'' = Some (ex_position ex) \<and> p ''playerType'' = Some (ex_playerType ex)
       \<and> p ''rotationType'' = Some (ex_rotationType ex)"
    unfolding p by (simp add: preserve_protected)
  have rat: "\<exists>fresh. process_player row = Inr fresh \<and> (\<forall>f \<in> set rating_fields. p f = fresh f)"
    using fresh preserve_rating_fields [of ex fresh] unfolding p by blast
  have cop: "\<forall>(out, src) \<in> set copied_fields. p out = row src"
    unfolding p using preserve_copied [of _ _ ex fresh] processed_copied [OF disp] by auto
  have "p ''astRating'' = fresh ''astRating''" "p ''athleticism'' = fresh ''athleticism''"
    unfolding p by (simp_all add: preserve_def)
  with processed_fields(6,7) [OF disp]
  have der: "p ''astRating'' = Some (Some (py_str a))" "p ''athleticism'' = Some (Some (py_str b))"
    by simp_all
  have ast: "\<exists>pa pq pv a. int_item row ''passAccuracy'' = Inr pa \<and> int_item row ''passIQ'' = Inr pq
            \<and> int_item row ''passVision'' = Inr pv
            \<and> math_floor_truediv (pa + pq + pv) 3 = Inr a
            \<and> p ''astRating'' = Some (Some (py_str a))"
    using ints(1-4) der(1) by blast
  have ath: "\<exists>sp ag st ve sm hu b. int_item row ''speed'' = Inr sp \<and> int_item row ''agility'' = Inr ag
            \<and> int_item row ''strength'' = Inr st \<and> int_item row ''vertical'' = Inr ve
            \<and> int_item row ''stamina'' = Inr sm \<and> int_item row ''hustle'' = Inr hu
            \<and> math_floor_truediv (sp + ag + st + ve + sm + hu) 6 = Inr b
            \<and> p ''athleticism'' = Some (Some (py_str b))"
    using ints(5-11) der(2) by blast
  from prot rat cop ast ath show ?thesis by blast
qed

theorem reconcile_matched_witness:
  "merge_player [''John Doe'' \<mapsto> john_doe_entry]
     (roster_row ''Atlanta Hawks'' ''John Doe'' ''PG'' ''85'')
   = Inr (preserve john_doe_entry (roster_player ''John Doe'' ''PG'' ''85''))
   \<and> preserve john_doe_entry (roster_player ''John Doe'' ''PG'' ''85'') ''playerType''
     = Some (Some ''Starter'')
   \<and> preserve john_doe_entry (roster_player ''John Doe'' ''PG'' ''85'') ''rating''
     = Some (Some ''85'')"
proof -
  let ?row = "roster_row ''Atlanta Hawks'' ''John Doe'' ''PG'' ''85''"
  let ?idx = "[''John Doe'' \<mapsto> john_doe_entry]"
  have m: "merge_player ?idx ?row = Inr (preserve john_doe_entry (roster_player ''John Doe'' ''PG'' ''85''))"
    by (rule merge_player_matched [where existing = ?idx and ex = john_doe_entry,
          OF process_player_roster_row roster_row_name]) simp
  have k: "?idx ''John Doe'' = Some john_doe_entry" by simp
  from reconcile_matched [OF m roster_row_name k]
  have "preserve john_doe_entry (roster_player ''John Doe'' ''PG'' ''85'') ''playerType''
          = Some (ex_playerType john_doe_entry)"
    and "(''rating'', ''overallAttribute'') \<in> set copied_fields \<longrightarrow>
         preserve john_doe_entry (roster_player ''John Doe'' ''PG'' ''85'') ''rating''
          = ?row ''overallAttribute''"
    by blast+
  moreover have "(''rating'', ''overallAttribute'') \<in> set copied_fields"
    by (simp add: copied_fields_def)
  moreover have "?row ''overallAttribute'' = Some (Some ''85'')"
    by (simp add: roster_row_eq roster_header_def roster_record_def)
  ultimately show ?thesis using m by (simp add: john_doe_entry_def)
qed

text \<open>
  Claim C9. When the roster row's display name is not a key of the index of the existing
  team file, and in particular when the team has no file yet, the record's
  \<open>englishName\<close> is the roster row's \<open>name\<close> unchanged, and \<open>playerType\<close> and
  \<open>rotationType\<close> are the empty string.
\<close>

theorem unmatched_defaults:
  assumes "merge_player (read_existing_team_data fs path) row = Inr p"
    and "fs path = None
         \<or> (\<forall>key. row ''name'' = Some (Some key) \<longrightarrow> read_existing_team_data fs path key = None)"
  shows "p ''englishName'' = row ''name'' \<and> p ''playerType'' = Some (Some [])
       \<and> p ''rotationType'' = Some (Some [])"
proof -
  from assms(2)
  have un: "\<forall>key. row ''name'' = Some (Some key) \<longrightarrow> read_existing_team_data fs path key = None"
    by (auto simp: read_existing_team_data_def)
  from assms(1) obtain fresh where fresh: "process_player row = Inr fresh"
    by (rule merge_player_Inr)
  from merge_player_unmatched [where existing = "read_existing_team_data fs path", OF fresh un]
    assms(1)
  have p: "p = fresh" by simp
  from fresh obtain a b where "dict_display (processed_items row a b) = Inr fresh"
    by (rule process_player_Inr)
  from processed_fields(2,4,5) [OF this] show ?thesis by (simp add: p)
qed

theorem unmatched_defaults_witness:
  "merge_player (read_existing_team_data Map.empty ''public/data/rosters/Hawks.csv'')
     (roster_row ''Atlanta Hawks'' ''John Doe'' ''PG'' ''85'')
   = Inr (roster_player ''John Doe'' ''PG'' ''85'')
   \<and> roster_player ''John Doe'' ''PG'' ''85'' ''englishName'' = Some (Some ''John Doe'')
   \<and> roster_player ''John Doe'' ''PG'' ''85'' ''playerType'' = Some (Some [])
   \<and> roster_player ''John Doe'' ''PG'' ''85'' ''rotationType'' = Some (Some [])"
proof -
  let ?row = "roster_row ''Atlanta Hawks'' ''John Doe'' ''PG'' ''85''"
  let ?path = "''public/data/rosters/Hawks.csv''"
  have m: "merge_player (read_existing_team_data Map.empty ?path) ?row
           = Inr (roster_player ''John Doe'' ''PG'' ''85'')"
    by (rule merge_player_unmatched
          [where existing = "read_existing_team_data Map.empty ?path",
           OF process_player_roster_row])
      (simp add: read_existing_team_data_def)
  have "Map.empty ?path = None
        \<or> (\<forall>key. ?row ''name'' = Some (Some key)
             \<longrightarrow> read_existing_team_data Map.empty ?path key = None)"
    by simp
  from unmatched_defaults [OF m this] m show ?thesis
    by (simp add: roster_row_name)
qed

section \<open>The index of the existing team file\<close>

text \<open>
  Claim C10. When several rows of an existing team file have the same index key, the index
  holds the protected fields of the last of them in file order, whatever the rows before
  it are. A roster row of that name is then reconciled with that last row: the record that
  goes to the output has as \<open>name\<close>, \<open>englishName\<close>, \<open>position\<close>, \<open>playerType\<close> and
  \<open>rotationType\<close> the cells of the last duplicate row (\<^verbatim>\<open>row.get(column, '')\<close>), and
  every rating field as \<open>process_player\<close> computed it from the roster row.
\<close>

theorem last_duplicate_wins:
  assumes "fs path = Some f" and "DictReader f = rs1 @ r # rs2"
    and "english_name_key r = Some key" and "key \<noteq> []"
    and "\<forall>r' \<in> set rs2. english_name_key r' \<noteq> Some key"
  shows "read_existing_team_data fs path key = Some (existing_of_row r)
       \<and> (\<forall>row fresh. process_player row = Inr fresh \<and> row ''name'' = Some (Some key)
            \<longrightarrow> (\<exists>p. merge_player (read_existing_team_data fs path) row = Inr p
                 \<and> p = preserve (existing_of_row r) fresh
                 \<and> p ''name'' = Some (dict_get r ''name'' (Some []))
                 \<and> p ''englishName'' = Some (dict_get r ''englishName'' (Some []))
                 \<and> p ''position'' = Some (dict_get r ''position'' (Some []))
                 \<and> p ''playerType'' = Some (dict_get r ''playerType'' (Some []))
                 \<and> p ''rotationType'' = Some (dict_get r ''rotationType'' (Some []))
                 \<and> (\<forall>k \<in> set rating_fields. p k = fresh k)))"
proof -
  have idx: "read_existing_team_data fs path key = Some (existing_of_row r)"
    using assms(1,2) index_rows_last [OF assms(3,4,5)]
    by (simp add: read_existing_team_data_def)
  have "\<exists>p. merge_player (read_existing_team_data fs path) row = Inr p
          \<and> p = preserve (existing_of_row r) fresh
          \<and> p ''name'' = Some (dict_get r ''name'' (Some []))
          \<and> p ''englishName'' = Some (dict_get r ''englishName'' (Some []))
          \<and> p ''position'' = Some (dict_get r ''position'' (Some []))
          \<and> p ''playerType'' = Some (dict_get r ''playerType'' (Some []))
          \<and> p ''rotationType'' = Some (dict_get r ''rotationType'' (Some []))
          \<and> (\<forall>k \<in> set rating_fields. p k = fresh k)"
    if "process_player row = Inr fresh" and "row ''name'' = Some (Some key)" for row fresh
  proof -
    let ?p = "preserve (existing_of_row r) fresh"
    have m: "merge_player (read_existing_team_data fs path) row = Inr ?p"
      using merge_player_matched
        [where existing = "read_existing_team_data fs path", OF that idx] .
    have prot: "?p ''name'' = Some (dict_get r ''name'' (Some []))"
      "?p ''englishName'' = Some (dict_get r ''englishName'' (Some []))"
      "?p ''position'' = Some (dict_get r ''position'' (Some []))"
      "?p ''playerType'' = Some (dict_get r ''playerType'' (Some []))"
      "?p ''rotationType'' = Some (dict_get r ''rotationType'' (Some []))"
      by (simp_all add: preserve_protected existing_of_row_def)
    from m prot preserve_rating_fields [of "existing_of_row r" fresh]
    show ?thesis by blast
  qed
  with idx show ?thesis by blast
qed

theorem last_duplicate_wins_witness:
  "read_existing_team_data [''public/data/rosters/Hawks.csv'' \<mapsto> duplicate_file]
     ''public/data/rosters/Hawks.csv'' ''John Doe''
   = Some \<lparr>ex_name = Some ''John'', ex_englishName = Some ''John Doe'', ex_position = Some ''SG'',
           ex_playerType = Some ''Reserve'', ex_rotationType = Some ''Second''\<rparr>
   \<and> field_of ''name''
       (merge_player
          (read_existing_team_data [''public/data/rosters/Hawks.csv'' \<mapsto> duplicate_file]
             ''public/data/rosters/Hawks.csv'')
          (roster_row ''Atlanta Hawks'' ''John Doe'' ''PG'' ''85'')) = Inr (Some ''John'')
   \<and> field_of ''englishName''
       (merge_player
          (read_existing_team_data [''public/data/rosters/Hawks.csv'' \<mapsto> duplicate_file]
             ''public/data/rosters/Hawks.csv'')
          (roster_row ''Atlanta Hawks'' ''John Doe'' ''PG'' ''85'')) = Inr (Some ''John Doe'')
   \<and> field_of ''position''
       (merge_player
          (read_existing_team_data [''public/data/rosters/Hawks.csv'' \<mapsto> duplicate_file]
             ''public/data/rosters/Hawks.csv'')
          (roster_row ''Atlanta Hawks'' ''John Doe'' ''PG'' ''85'')) = Inr (Some ''SG'')
   \<and> field_of ''playerType''
       (merge_player
          (read_existing_team_data [''public/data/rosters/Hawks.csv'' \<mapsto> duplicate_file]
             ''public/data/rosters/Hawks.csv'')
          (roster_row ''Atlanta Hawks'' ''John Doe'' ''PG'' ''85'')) = Inr (Some ''Reserve'')
   \<and> field_of ''rotationType''
       (merge_player
          (read_existing_team_data [''public/data/rosters/Hawks.csv'' \<mapsto> duplicate_file]
             ''public/data/rosters/Hawks.csv'')
          (roster_row ''Atlanta Hawks'' ''John Doe'' ''PG'' ''85'')) = Inr (Some ''Second'')
   \<and> field_of ''rating''
       (merge_player
          (read_existing_team_data [''public/data/rosters/Hawks.csv'' \<mapsto> duplicate_file]
             ''public/data/rosters/Hawks.csv'')
          (roster_row ''Atlanta Hawks'' ''John Doe'' ''PG'' ''85'')) = Inr (Some ''85'')"
proof -
  let ?path = "''public/data/rosters/Hawks.csv''"
  let ?r = "dict_row (hd duplicate_file) [''John'', ''John Doe'', ''SG'', ''Reserve'', ''Second'']"
  let ?row = "roster_row ''Atlanta Hawks'' ''John Doe'' ''PG'' ''85''"
  let ?fresh = "roster_player ''John Doe'' ''PG'' ''85''"
  let ?m = "merge_player (read_existing_team_data [?path \<mapsto> duplicate_file] ?path) ?row"
  have f: "[?path \<mapsto> duplicate_file] ?path = Some duplicate_file" by simp
  have ne: "''John Doe'' \<noteq> []" by simp
  have rest: "\<forall>r' \<in> set []. english_name_key r' \<noteq> Some ''John Doe''" by simp
  have cells: "dict_get ?r ''name'' (Some []) = Some ''John''"
    "dict_get ?r ''englishName'' (Some []) = Some ''John Doe''"
    "dict_get ?r ''position'' (Some []) = Some ''SG''"
    "dict_get ?r ''playerType'' (Some []) = Some ''Reserve''"
    "dict_get ?r ''rotationType'' (Some []) = Some ''Second''"
    by (simp_all add: dict_get_def dict_row_def duplicate_file_def)
  have rating: "''rating'' \<in> set rating_fields"
    by (simp add: rating_fields_def fieldnames_def)
  have fresh: "?fresh ''rating'' = Some (Some ''85'')"
    by (simp add: roster_player_def)
  from last_duplicate_wins
      [where fs = "[?path \<mapsto> duplicate_file]" and path = ?path,
       OF f DictReader_duplicate_file duplicate_file_last(1) ne rest]
  have idx: "read_existing_team_data [?path \<mapsto> duplicate_file] ?path ''John Doe''
               = Some (existing_of_row ?r)"
    and rec: "\<exists>p. ?m = Inr p
          \<and> p ''name'' = Some (dict_get ?r ''name'' (Some []))
          \<and> p ''englishName'' = Some (dict_get ?r ''englishName'' (Some []))
          \<and> p ''position'' = Some (dict_get ?r ''position'' (Some []))
          \<and> p ''playerType'' = Some (dict_get ?r ''playerType'' (Some []))
          \<and> p ''rotationType'' = Some (dict_get ?r ''rotationType'' (Some []))
          \<and> (\<forall>k \<in> set rating_fields. p k = ?fresh k)"
    using process_player_roster_row [of "''Atlanta Hawks''" "''John Doe''" "''PG''" "''85''"]
      roster_row_name [of "''Atlanta Hawks''" "''John Doe''" "''PG''" "''85''"]
    by blast+
  from rec obtain p where p: "?m = Inr p"
    "p ''name'' = Some (Some ''John'')" "p ''englishName'' = Some (Some ''John Doe'')"
    "p ''position'' = Some (Some ''SG'')" "p ''playerType'' = Some (Some ''Reserve'')"
    "p ''rotationType'' = Some (Some ''Second'')" "p ''rating'' = Some (Some ''85'')"
    unfolding cells using rating fresh by auto
  have "field_of ''name'' ?m = Inr (Some ''John'')"
    "field_of ''englishName'' ?m = Inr (Some ''John Doe'')"
    "field_of ''position'' ?m = Inr (Some ''SG'')"
    "field_of ''playerType'' ?m = Inr (Some ''Reserve'')"
    "field_of ''rotationType'' ?m = Inr (Some ''Second'')"
    "field_of ''rating'' ?m = Inr (Some ''85'')"
    using p by (simp_all add: field_of_def getitem_def)
  with idx show ?thesis
    unfolding duplicate_file_last(2) by blast
qed

text \<open>
  Claim C2, as stated, fails: a row whose \<open>englishName\<close> cell is present but empty is not
  indexed under its \<open>name\<close>; it is not indexed at all. The file below has one row with
  name \<open>John Doe\<close> and an empty \<open>englishName\<close>, and \<open>John Doe\<close> is not a key of its index.
\<close>

theorem blank_english_name_not_indexed:
  "dict_row (hd blank_english_name_file) (blank_english_name_file ! 1) ''englishName''
     = Some (Some [])
   \<and> dict_row (hd blank_english_name_file) (blank_english_name_file ! 1) ''name''
     = Some (Some ''John Doe'')
   \<and> DictReader blank_english_name_file
     = [dict_row (hd blank_english_name_file) (blank_english_name_file ! 1)]
   \<and> read_existing_team_data [''public/data/rosters/Hawks.csv'' \<mapsto> blank_english_name_file]
       ''public/data/rosters/Hawks.csv'' ''John Doe'' = None"
  by (simp add: read_existing_team_data_def DictReader_def blank_english_name_file_def
      index_rows_def index_row_def english_name_key_def dict_get_def dict_row_def)

text \<open>
  Claim C2, amended. A string is a key of the index of an existing team file exactly when
  it is not empty and some row of the file either has it as its \<open>englishName\<close>, or has no
  \<open>englishName\<close> key at all (the file has no such column) and has it as its \<open>name\<close>.
  A row whose \<open>englishName\<close> is present but empty, or \<^verbatim>\<open>None\<close>, contributes no key.
\<close>

theorem index_key_rule:
  assumes "fs path = Some f"
  shows "read_existing_team_data fs path key \<noteq> None \<longleftrightarrow>
           key \<noteq> []
           \<and> (\<exists>r \<in> set (DictReader f).
                 r ''englishName'' = Some (Some key)
                 \<or> (r ''englishName'' = None \<and> r ''name'' = Some (Some key)))"
  using assms
  by (auto simp: read_existing_team_data_def index_rows_None english_name_key_eq)

theorem index_key_rule_witness:
  "read_existing_team_data [''public/data/rosters/Hawks.csv'' \<mapsto> no_english_name_file]
     ''public/data/rosters/Hawks.csv'' ''John Doe'' \<noteq> None
   \<and> (\<exists>r \<in> set (DictReader no_english_name_file).
         r ''englishName'' = None \<and> r ''name'' = Some (Some ''John Doe''))"
proof -
  let ?path = "''public/data/rosters/Hawks.csv''"
  have f: "[?path \<mapsto> no_english_name_file] ?path = Some no_english_name_file" by simp
  have r: "\<exists>r \<in> set (DictReader no_english_name_file).
         r ''englishName'' = None \<and> r ''name'' = Some (Some ''John Doe'')"
    by (simp add: DictReader_def no_english_name_file_def dict_row_def)
  with index_key_rule
      [where fs = "[?path \<mapsto> no_english_name_file]" and path = ?path
         and key = "''John Doe''", OF f]
  show ?thesis by blast
qed

section \<open>Teams and rows the run cannot process\<close>



text \<open>
  Claim C8. When a roster row of a mapped team has one of the nine numeric columns or
  \<open>overallAttribute\<close> absent, \<^verbatim>\<open>None\<close> or a string that \<^verbatim>\<open>int\<close> refuses, \<open>process_roster\<close>
  ends with an exception. Either reading the roster already failed and nothing was touched, or
  the teams before the failing one were completed, the team loop stopped in the failing
  team, and the files are those left by the completed teams: nothing was written for the
  team in progress, and no later team was processed.
\<close>

theorem malformed_numeric_field_fatal:
  assumes "files w input = Some f"
    and "r \<in> set (DictReader f)" and "r ''team'' = Some team" and "team_code team = Some code"
    and "k \<in> set (''overallAttribute'' # numeric_fields)" and "\<forall>i. int_item r k \<noteq> Inr i"
  shows "\<exists>e w'. process_roster input d w = (Some e, w')
          \<and> ((group_by_team (DictReader f) [] = Inl e \<and> w' = w)
             \<or> (\<exists>groups gs1 t ps gs2 w1. group_by_team (DictReader f) [] = Inr groups
                  \<and> groups = gs1 @ (t, ps) # gs2
                  \<and> process_teams d gs1 w = (None, w1)
                  \<and> process_team d t ps w1 = (Some e, w')
                  \<and> files w' = files w1))"
proof (cases "group_by_team (DictReader f) []")
  case (Inl e)
  with assms(1) have "process_roster input d w = (Some e, w)"
    by (simp add: process_roster_def)
  with Inl show ?thesis by blast
next
  case (Inr groups)
  from group_by_team_members [OF Inr] assms(2,3) obtain ps where
    ps: "(team, ps) \<in> set groups" "r \<in> set ps" by fastforce
  from process_teams_bad_row [OF ps(1) assms(4) ps(2) assms(5,6), of d w]
  obtain e w' where run: "process_teams d groups w = (Some e, w')" by blast
  from process_teams_error [OF run] obtain gs1 t ps' gs2 w1 where
    split: "groups = gs1 @ (t, ps') # gs2" "process_teams d gs1 w = (None, w1)"
      "process_team d t ps' w1 = (Some e, w')" by blast
  from process_team_error_files [OF split(3)] have "files w' = files w1" .
  moreover from assms(1) Inr run have "process_roster input d w = (Some e, w')"
    by (simp add: process_roster_def)
  ultimately show ?thesis using Inr split by blast
qed

theorem malformed_numeric_field_fatal_witness:
  "\<exists>e w'. process_roster input_file output_dir
             \<lparr>files = [input_file \<mapsto> malformed_roster], stdout = []\<rparr> = (Some e, w')
          \<and> files w' = [input_file \<mapsto> malformed_roster]"
proof -
  let ?w = "\<lparr>files = [input_file \<mapsto> malformed_roster], stdout = []\<rparr>"
  let ?r = "roster_row ''Atlanta Hawks'' ''John Doe'' ''PG'' ''abc''"
  have f: "files ?w input_file = Some malformed_roster" by simp
  have r: "?r \<in> set (DictReader malformed_roster)" by (simp add: malformed_roster_rows)
  have k: "''overallAttribute'' \<in> set (''overallAttribute'' # numeric_fields)" by simp
  from malformed_numeric_field_fatal
    [OF f r roster_row_team team_code_hawks k malformed_rating, of output_dir]
  obtain e w' where run: "process_roster input_file output_dir ?w = (Some e, w')"
    and alt: "(group_by_team (DictReader malformed_roster) [] = Inl e \<and> w' = ?w)
             \<or> (\<exists>groups gs1 t ps gs2 w1.
                  group_by_team (DictReader malformed_roster) [] = Inr groups
                  \<and> groups = gs1 @ (t, ps) # gs2
                  \<and> process_teams output_dir gs1 ?w = (None, w1)
                  \<and> process_team output_dir t ps w1 = (Some e, w')
                  \<and> files w' = files w1)"
    by blast
  have groups: "group_by_team (DictReader malformed_roster) [] = Inr [(Some ''Atlanta Hawks'', [?r])]"
    by (simp add: malformed_roster_rows roster_row_team getitem_def)
  from alt have "files w' = [input_file \<mapsto> malformed_roster]"
  proof
    assume "group_by_team (DictReader malformed_roster) [] = Inl e \<and> w' = ?w"
    then show ?thesis by simp
  next
    assume "\<exists>groups gs1 t ps gs2 w1.
                  group_by_team (DictReader malformed_roster) [] = Inr groups
                  \<and> groups = gs1 @ (t, ps) # gs2
                  \<and> process_teams output_dir gs1 ?w = (None, w1)
                  \<and> process_team output_dir t ps w1 = (Some e, w')
                  \<and> files w' = files w1"
    then obtain gs1 t ps gs2 w1 where
      *: "[(Some ''Atlanta Hawks'', [?r])] = gs1 @ (t, ps) # gs2"
         "process_teams output_dir gs1 ?w = (None, w1)" "files w' = files w1"
      unfolding groups by auto
    from *(1) have "gs1 = []" by (cases gs1) auto
    with *(2) have "w1 = ?w" by simp
    with *(3) show ?thesis by simp
  qed
  with run show ?thesis by blast
qed

section \<open>The order of a team file\<close>

text \<open>
  Claim C4. When a team is processed without an exception, the file written for it holds
  the header and then the team's records in descending order of \<^verbatim>\<open>int(rating)\<close>: of any
  two records the earlier has the greater or equal integer rating, both on the records and
  on the rating cells of the file (so \<open>10\<close> comes before \<open>9\<close>). The sorted sequence is a
  rearrangement of the sequence before the sort, and the records of any one integer rating
  are in the same order as before the sort: the sort is stable.
\<close>

theorem team_output_sorted:
  assumes "process_team d team players w = (None, w')" and "team_code team = Some code"
  shows "\<exists>pre out.
           merge_players (read_existing_team_data (files w) (os_path_join d (code @ ''.csv'')))
             players = Inr pre
           \<and> files w' (os_path_join d (code @ ''.csv''))
               = Some (fieldnames # map (dict_to_list fieldnames) out)
           \<and> sorted_wrt (\<lambda>a b. \<exists>i j. rating_key a = Inr i \<and> rating_key b = Inr j \<and> j \<le> i) out
           \<and> sorted_wrt (\<lambda>a b. \<exists>i j. py_int (a ! 5) = Some i \<and> py_int (b ! 5) = Some j \<and> j \<le> i)
               (map (dict_to_list fieldnames) out)
           \<and> mset out = mset pre
           \<and> (\<forall>k. filter (\<lambda>x. rating_key x = Inr k) out = filter (\<lambda>x. rating_key x = Inr k) pre)"
proof -
  from process_team_ok [OF assms] obtain pre out where
    pre: "merge_players (read_existing_team_data (files w) (os_path_join d (code @ ''.csv'')))
             players = Inr pre"
    and out: "sort_by_rating pre = Inr out"
    and fl: "files w' = (files w)(os_path_join d (code @ ''.csv'') \<mapsto>
                 fieldnames # map (dict_to_list fieldnames) out)"
    by blast
  note s = sort_by_rating_sorted [OF out]
  from s(1) have "sorted_wrt (\<lambda>a b. \<exists>i j. py_int (dict_to_list fieldnames a ! 5) = Some i
                     \<and> py_int (dict_to_list fieldnames b ! 5) = Some j \<and> j \<le> i) out"
    by (rule sorted_wrt_mono_rel [rotated]) (auto dest: rating_cell)
  then have cells: "sorted_wrt (\<lambda>a b. \<exists>i j. py_int (a ! 5) = Some i \<and> py_int (b ! 5) = Some j \<and> j \<le> i)
               (map (dict_to_list fieldnames) out)"
    by (simp add: sorted_wrt_map)
  from fl have "files w' (os_path_join d (code @ ''.csv''))
               = Some (fieldnames # map (dict_to_list fieldnames) out)" by simp
  with pre s cells show ?thesis by blast
qed

theorem team_output_sorted_witness:
  "\<exists>w' out. process_team output_dir (Some ''Atlanta Hawks'') two_hawks empty_world = (None, w')
     \<and> files w' ''public/data/rosters/Hawks.csv''
         = Some (fieldnames # map (dict_to_list fieldnames) out)
     \<and> map (\<lambda>c. c ! 5) (map (dict_to_list fieldnames) out) = [''10'', ''9'']
     \<and> sorted_wrt (\<lambda>a b. \<exists>i j. py_int (a ! 5) = Some i \<and> py_int (b ! 5) = Some j \<and> j \<le> i)
               (map (dict_to_list fieldnames) out)"
proof -
  let ?out = "[roster_player ''Bo Ten'' ''SG'' ''10'', roster_player ''Al Nine'' ''PG'' ''9'']"
  from process_team_two_hawks obtain w' where
    run: "process_team output_dir (Some ''Atlanta Hawks'') two_hawks empty_world = (None, w')"
    and fs: "files w' = [''public/data/rosters/Hawks.csv'' \<mapsto>
                fieldnames # map (dict_to_list fieldnames) ?out]"
    by blast
  from team_output_sorted [OF run team_code_hawks] obtain out where
    f: "files w' (os_path_join output_dir (''Hawks'' @ ''.csv''))
          = Some (fieldnames # map (dict_to_list fieldnames) out)"
    and sorted: "sorted_wrt
          (\<lambda>a b. \<exists>i j. py_int (a ! 5) = Some i \<and> py_int (b ! 5) = Some j \<and> j \<le> i)
          (map (dict_to_list fieldnames) out)"
    by blast
  from f fs have eq: "map (dict_to_list fieldnames) out = map (dict_to_list fieldnames) ?out"
    by (simp add: os_path_join_hawks)
  have "map (\<lambda>c. c ! 5) (map (dict_to_list fieldnames) out) = [''10'', ''9'']"
    unfolding eq by (simp add: rating_cell_roster_player)
  with run f sorted show ?thesis by (auto simp: os_path_join_hawks)
qed

section \<open>The derived ratings\<close>

text \<open>
  Claim C3, as stated, fails for large values: \<^verbatim>\<open>math.floor((a + b + c) / 3)\<close> divides in
  floating point, and the double nearest to the quotient can be the next integer. With
  passing values 13510798882111490, 0 and 0 the floor of the mean is 4503599627370496, and
  \<open>process_player\<close> gives \<open>astRating\<close> 4503599627370497: it is rounded up.
\<close>

theorem ast_rating_rounded_up:
  "int_item rounding_row ''passAccuracy'' = Inr 13510798882111490
   \<and> int_item rounding_row ''passIQ'' = Inr 0
   \<and> int_item rounding_row ''passVision'' = Inr 0
   \<and> py_str \<lfloor>(of_int (13510798882111490 + 0 + 0) :: rat) / 3\<rfloor> = ''4503599627370496''
   \<and> field_of ''astRating'' (process_player rounding_row) = Inr (Some ''4503599627370497'')"
proof -
  have "process_player rounding_row = Inr (map_of (fresh_values rounding_row 4503599627370497 80))"
    by (rule process_player_complete [OF rounding_row_complete rounding_row_ints(1-3)
          floor_rounds_up rounding_row_ints(4-9)]) (simp add: floor_485_6)
  then have "field_of ''astRating'' (process_player rounding_row)
             = Inr (Some ''4503599627370497'')"
    by (simp add: field_of_def getitem_def fresh_values_eq py_str_rounded)
  moreover have "py_str \<lfloor>(of_int (13510798882111490 + 0 + 0) :: rat) / 3\<rfloor>
                 = ''4503599627370496''"
    by (simp add: py_str_floor floor_big)
  ultimately show ?thesis by (simp add: rounding_row_ints)
qed

text \<open>
  Claim C3, amended. For a roster row whose nine fields parse as integers, with the three
  passing values adding up to less than \<open>3 * 2 ^ 52\<close> in absolute value and the six
  athletic values likewise, the output record's \<open>astRating\<close> is the decimal string of the
  floor of (passAccuracy + passIQ + passVision) / 3 and its \<open>athleticism\<close> the decimal
  string of the floor of (speed + agility + strength + vertical + stamina + hustle) / 6;
  for 70, 70, 71 that is \<open>70\<close>, and for 80, 80, 80, 80, 80, 85 it is \<open>80\<close>.
\<close>

theorem derived_ratings_floor:
  assumes "merge_player existing row = Inr p"
    and "int_item row ''passAccuracy'' = Inr pa" and "int_item row ''passIQ'' = Inr pq"
    and "int_item row ''passVision'' = Inr pv"
    and "int_item row ''speed'' = Inr sp" and "int_item row ''agility'' = Inr ag"
    and "int_item row ''strength'' = Inr st" and "int_item row ''vertical'' = Inr ve"
    and "int_item row ''stamina'' = Inr sm" and "int_item row ''hustle'' = Inr hu"
    and "\<bar>pa + pq + pv\<bar> < 3 * 2 ^ 52"
    and "\<bar>sp + ag + st + ve + sm + hu\<bar> < 3 * 2 ^ 52"
  shows "p ''astRating'' = Some (Some (py_str \<lfloor>(of_int (pa + pq + pv) :: rat) / 3\<rfloor>))
       \<and> p ''athleticism''
           = Some (Some (py_str \<lfloor>(of_int (sp + ag + st + ve + sm + hu) :: rat) / 6\<rfloor>))"
proof -
  from assms(1) obtain fresh where fresh: "process_player row = Inr fresh"
    by (rule merge_player_Inr)
  then obtain a b where
    a: "math_floor_truediv (pa + pq + pv) 3 = Inr a"
    and b: "math_floor_truediv (sp + ag + st + ve + sm + hu) 6 = Inr b"
    and disp: "dict_display (processed_items row a b) = Inr fresh"
    using assms(2-10) by (elim process_player_Inr) simp
  from a math_floor_truediv_3 [OF assms(11)] have a': "a = (pa + pq + pv) div 3" by simp
  from b math_floor_truediv_6 [OF assms(12)]
  have b': "b = (sp + ag + st + ve + sm + hu) div 6" by simp
  have fl3: "\<lfloor>(of_int (pa + pq + pv) :: rat) / 3\<rfloor> = (pa + pq + pv) div 3"
    using floor_divide_of_int_eq [of "pa + pq + pv" 3, where ?'a = rat] by simp
  have fl6: "\<lfloor>(of_int (sp + ag + st + ve + sm + hu) :: rat) / 6\<rfloor>
             = (sp + ag + st + ve + sm + hu) div 6"
    using floor_divide_of_int_eq [of "sp + ag + st + ve + sm + hu" 6, where ?'a = rat] by simp
  from assms(1) fresh have "p = fresh \<or> (\<exists>e. p = preserve e fresh)"
    by (auto simp: merge_player_def bindE_eq_Inr split: option.splits)
  then have "p ''astRating'' = fresh ''astRating''" "p ''athleticism'' = fresh ''athleticism''"
    by (auto simp: preserve_def)
  with processed_fields(6,7) [OF disp] show ?thesis
    unfolding fl3 fl6 a' b' by simp
qed

theorem derived_ratings_floor_witness:
  "merge_player Map.empty (roster_row ''Atlanta Hawks'' ''John Doe'' ''PG'' ''85'')
     = Inr (roster_player ''John Doe'' ''PG'' ''85'')
   \<and> \<bar>70 + 70 + 71 :: int\<bar> < 3 * 2 ^ 52 \<and> \<bar>80 + 80 + 80 + 80 + 80 + 85 :: int\<bar> < 3 * 2 ^ 52
   \<and> roster_player ''John Doe'' ''PG'' ''85'' ''astRating'' = Some (Some ''70'')
   \<and> roster_player ''John Doe'' ''PG'' ''85'' ''athleticism'' = Some (Some ''80'')
   \<and> py_str \<lfloor>(of_int (70 + 70 + 71) :: rat) / 3\<rfloor> = ''70''
   \<and> py_str \<lfloor>(of_int (80 + 80 + 80 + 80 + 80 + 85) :: rat) / 6\<rfloor> = ''80''"
proof -
  let ?row = "roster_row ''Atlanta Hawks'' ''John Doe'' ''PG'' ''85''"
  have m: "merge_player Map.empty ?row = Inr (roster_player ''John Doe'' ''PG'' ''85'')"
    by (rule merge_player_unmatched [where existing = Map.empty, OF process_player_roster_row])
      simp
  have b3: "\<bar>70 + 70 + 71 :: int\<bar> < 3 * 2 ^ 52" by simp
  have b6: "\<bar>80 + 80 + 80 + 80 + 80 + 85 :: int\<bar> < 3 * 2 ^ 52" by simp
  have s3: "py_str \<lfloor>(of_int (70 + 70 + 71) :: rat) / 3\<rfloor> = ''70''"
    by (simp add: py_str_70 floor_211)
  have s6: "py_str \<lfloor>(of_int (80 + 80 + 80 + 80 + 80 + 85) :: rat) / 6\<rfloor> = ''80''"
    by (simp add: py_str_80 floor_485)
  from derived_ratings_floor [OF m roster_row_ints b3 b6] m b3 b6 s3 s6
  show ?thesis by simp
qed

section \<open>Running the program twice\<close>

text \<open>
  A file of the model is its sequence of records, and \<^verbatim>\<open>csv.DictWriter\<close> writes the bytes of
  a file as a function of these records: two runs that leave the same records leave the
  same bytes.
\<close>

text \<open>
  Claim C5, as stated, fails. The roster below has two players of the Atlanta Hawks with
  the display name \<open>John Doe\<close>, a \<open>PG\<close> rated 85 and an \<open>SG\<close> rated 90, and there is no team
  file. The first run writes the \<open>SG\<close> (90) above the \<open>PG\<close> (85). The second run indexes
  that file by \<open>englishName\<close>, where the last row, the \<open>PG\<close>, wins, and gives its position
  to both players: the second run's file has \<open>PG\<close> in the row rated 90, which the first
  run's file has not.
\<close>

theorem same_name_rerun_differs:
  "fst (main same_name_world) = None
   \<and> files (snd (main same_name_world)) ''public/data/rosters/Hawks.csv''
     = Some [fieldnames, team_record ''John Doe'' ''John Doe'' ''SG'' [] [] ''90'', team_record ''John Doe'' ''John Doe'' ''PG'' [] [] ''85'']
   \<and> fst (main (snd (main same_name_world))) = None
   \<and> files (snd (main (snd (main same_name_world)))) ''public/data/rosters/Hawks.csv''
     = Some [fieldnames, team_record ''John Doe'' ''John Doe'' ''PG'' [] [] ''90'', team_record ''John Doe'' ''John Doe'' ''PG'' [] [] ''85'']
   \<and> files (snd (main (snd (main same_name_world)))) \<noteq> files (snd (main same_name_world))"
proof -
  have "team_record ''John Doe'' ''John Doe'' ''PG'' [] [] ''90'' \<noteq> team_record ''John Doe'' ''John Doe'' ''SG'' [] [] ''90''"
    by (simp add: team_record_def)
  then have "files (snd (main (snd (main same_name_world)))) ''public/data/rosters/Hawks.csv''
      \<noteq> files (snd (main same_name_world)) ''public/data/rosters/Hawks.csv''"
    using same_name_first_run same_name_second_run by simp
  then have "files (snd (main (snd (main same_name_world)))) \<noteq> files (snd (main same_name_world))"
    by metis
  with same_name_first_run same_name_second_run show ?thesis by simp
qed

text \<open>
  Claim C5, amended. Let a run of \<open>main\<close> on a roster end without an exception. If every
  team file that existed before that run has an \<open>englishName\<close> column, and rows of the
  roster with the same team and the same display name have the same position, then a
  second run on the files the first run left also ends without an exception, and leaves
  every file as the first run left it.
\<close>

theorem rerun_idempotent:
  assumes "main w0 = (None, w1)" and "files w0 input_file = Some roster"
    and "\<forall>t c f. team_code t = Some c
           \<longrightarrow> files w0 (os_path_join output_dir (c @ ''.csv'')) = Some f
           \<longrightarrow> (\<forall>r \<in> set (DictReader f). r ''englishName'' \<noteq> None)"
    and "\<forall>r \<in> set (DictReader roster). \<forall>r' \<in> set (DictReader roster).
           r ''team'' = r' ''team'' \<longrightarrow> r ''name'' = r' ''name''
           \<longrightarrow> r ''position'' = r' ''position''"
  shows "\<exists>w2. main w1 = (None, w2) \<and> files w2 = files w1"
proof -
  obtain groups where groups: "group_by_team (DictReader roster) [] = Inr groups"
  proof (cases "group_by_team (DictReader roster) []")
    case (Inl e)
    from main_load_error [OF assms(2) Inl] assms(1) show ?thesis by simp
  next
    case (Inr gs)
    then show ?thesis by (rule that)
  qed
  obtain e w' where run: "process_teams output_dir groups w0 = (e, w')"
    by (cases "process_teams output_dir groups w0")
  from main_files [OF assms(2) groups] assms(1) run
  have e: "e = None" and fw: "files w1 = files w'" by simp_all
  from run e have run0: "process_teams output_dir groups w0 = (None, w')" by simp
  have sound: "distinct (map fst groups)"
    "\<forall>(t, ps) \<in> set groups. \<forall>r \<in> set ps. r \<in> set (DictReader roster) \<and> r ''team'' = Some t"
    using group_by_team_sound [OF groups, of "set (DictReader roster)"] by simp_all
  have "files w' input_file = files w0 input_file"
    by (rule process_teams_files_other [OF run0]) (use input_file_not_team_file in auto)
  with fw assms(2) have f1: "files w1 input_file = Some roster" by simp
  have old: "\<forall>(t, ps) \<in> set groups. \<forall>c f. team_code t = Some c
           \<longrightarrow> files w0 (os_path_join output_dir (c @ ''.csv'')) = Some f
           \<longrightarrow> (\<forall>r \<in> set (DictReader f). r ''englishName'' \<noteq> None)"
    using assms(3) by blast
  have pos: "\<forall>(t, ps) \<in> set groups. \<forall>r \<in> set ps. \<forall>r' \<in> set ps. r ''name'' = r' ''name''
           \<longrightarrow> r ''position'' = r' ''position''"
  proof (clarify)
    fix t ps r r'
    assume a: "(t, ps) \<in> set groups" "r \<in> set ps" "r' \<in> set ps" "r ''name'' = r' ''name''"
    from sound(2) a(1) have mem: "\<forall>x \<in> set ps. x \<in> set (DictReader roster) \<and> x ''team'' = Some t"
      by fastforce
    from mem a(2) have "r \<in> set (DictReader roster)" "r ''team'' = Some t" by blast+
    moreover from mem a(3) have "r' \<in> set (DictReader roster)" "r' ''team'' = Some t" by blast+
    ultimately have "r \<in> set (DictReader roster)" "r' \<in> set (DictReader roster)"
      "r ''team'' = r' ''team''" by simp_all
    with assms(4) a(4) show "r ''position'' = r' ''position''" by blast
  qed
  have agree: "\<forall>(t, ps) \<in> set groups. \<forall>c. team_code t = Some c
           \<longrightarrow> files w1 (os_path_join output_dir (c @ ''.csv''))
               = files w' (os_path_join output_dir (c @ ''.csv''))"
    using fw by simp
  from rerun_teams [OF run0 sound(1) old pos agree] obtain v' where
    v': "process_teams output_dir groups w1 = (None, v')" "files v' = files w1" by blast
  from main_files [OF f1 groups] v'
  have "fst (main w1) = None" "files (snd (main w1)) = files w1" by simp_all
  then have "main w1 = (None, snd (main w1)) \<and> files (snd (main w1)) = files w1"
    by (simp add: prod_eq_iff)
  then show ?thesis by blast
qed

theorem rerun_idempotent_witness:
  "fst (main two_hawks_world) = None
   \<and> files (snd (main two_hawks_world)) ''public/data/rosters/Hawks.csv''
     = Some [fieldnames, team_record ''Bo Ten'' ''Bo Ten'' ''SG'' [] [] ''10'', team_record ''Al Nine'' ''Al Nine'' ''PG'' [] [] ''9'']
   \<and> fst (main (snd (main two_hawks_world))) = None
   \<and> files (snd (main (snd (main two_hawks_world)))) = files (snd (main two_hawks_world))"
proof -
  have m: "main two_hawks_world = (None, snd (main two_hawks_world))"
    using two_hawks_first_run by (simp add: prod_eq_iff)
  have f: "files two_hawks_world input_file = Some two_hawks_roster"
    by (simp add: two_hawks_world_def)
  have old: "\<forall>t c f. team_code t = Some c
           \<longrightarrow> files two_hawks_world (os_path_join output_dir (c @ ''.csv'')) = Some f
           \<longrightarrow> (\<forall>r \<in> set (DictReader f). r ''englishName'' \<noteq> None)"
    using input_file_not_team_file by (simp add: two_hawks_world_def)
  have pos: "\<forall>r \<in> set (DictReader two_hawks_roster). \<forall>r' \<in> set (DictReader two_hawks_roster).
           r ''team'' = r' ''team'' \<longrightarrow> r ''name'' = r' ''name''
           \<longrightarrow> r ''position'' = r' ''position''"
    by (simp add: two_hawks_roster_rows two_hawks_def roster_row_name)
  from rerun_idempotent [OF m f old pos] obtain w2 where
    "main (snd (main two_hawks_world)) = (None, w2)"
    "files w2 = files (snd (main two_hawks_world))" by blast
  then have "fst (main (snd (main two_hawks_world))) = None"
    "files (snd (main (snd (main two_hawks_world)))) = files (snd (main two_hawks_world))"
    by simp_all
  with two_hawks_first_run show ?thesis using hawks_not_input by simp
qed

section \<open>A missing roster file\<close>

text \<open>
  Claim C7. When the roster file \<open>input_file\<close> does not exist, \<open>main\<close> returns without an
  exception, the file system is the one it started with (no team file is created, replaced
  or changed), and exactly one line, the diagnostic, is added to the output.
\<close>

theorem main_missing_input:
  assumes "files w input_file = None"
  shows "main w =
           (None,
            w\<lparr>stdout := stdout w
               @ [''Error: Input file '' @ [CHR 0x27] @ ''public/data/rosters/temp.csv''
                  @ [CHR 0x27] @ '' not found!'']\<rparr>)"
  using assms by (simp add: main_def print_def input_file_def)

theorem main_missing_input_witness:
  "files \<lparr>files = Map.empty, stdout = []\<rparr> input_file = None
   \<and> main \<lparr>files = Map.empty, stdout = []\<rparr> =
       (None,
        \<lparr>files = Map.empty,
         stdout = [''Error: Input file '' @ [CHR 0x27] @ ''public/data/rosters/temp.csv''
                   @ [CHR 0x27] @ '' not found!'']\<rparr>)"
  using main_missing_input [of "\<lparr>files = Map.empty, stdout = []\<rparr>"] by simp

end
